theory Spec2Isabelle
  imports Complex_Main "HOL-Library.Multiset"
begin

section \<open>Data model of the INP tracker\<close>

text \<open>
  The embedded code is the \<open>onINP\<close> module (interaction-to-next-paint). JavaScript
  numbers that hold durations, start times and latencies are modelled as \<open>real\<close>: the
  code only compares them, takes their maximum and looks at the sign of a difference, and
  the host delivers finite values. Interaction counts are integers (\<open>int\<close>).

  An entry's \<open>interactionId\<close> is optional in the source type; \<open>None\<close> is the
  JavaScript \<open>undefined\<close>. The lookup object \<open>longestInteractionMap\<close> is keyed by the
  string form of that value, which is injective on numbers and \<open>undefined\<close>, so the
  key type of the model is \<open>nat option\<close> itself.
\<close>

record PerformanceEventTiming =
  interactionId :: "nat option"
  duration :: real
  startTime :: real
  entryType :: string

text \<open>The \<open>Interaction\<close> interface; the field \<open>id\<close> is named \<open>ident\<close> here.\<close>

record Interaction =
  ident :: "nat option"
  latency :: real
  entries :: "PerformanceEventTiming list"

text \<open>
  Interaction objects are shared between the list and the lookup object, and
  \<open>metric.entries = inp.entries\<close> shares an interaction's array with the metric. The
  model therefore keeps the objects in a store addressed by references; the array of an
  interaction is never reassigned, so a reference to the interaction also names its array.
\<close>

type_synonym ref = nat

datatype EntriesRef = Own "PerformanceEventTiming list" | Shared ref

record INPMetric =
  mvalue :: real
  mentries :: EntriesRef

text \<open>
  The reporter returned by \<open>bindReporter\<close> is an external collaborator. The model logs
  every call made to it: a (re)binding, or an invocation \<open>report(forceReport)\<close> together
  with the value and the entries the bound metric holds at that moment.
\<close>

datatype ReporterCall =
  BindReporter
| Report bool real "PerformanceEventTiming list"

record Session =
  heap :: "ref \<Rightarrow> Interaction"
  next_ref :: ref
  longestInteractionList :: "ref list"
  longestInteractionMap :: "nat option \<rightharpoonup> ref"
  prevInteractionCount :: int
  metric :: INPMetric
  calls :: "ReporterCall list"

datatype error = TypeError

section \<open>Operations\<close>

definition MAX_INTERACTIONS_TO_CONSIDER :: nat where
  "MAX_INTERACTIONS_TO_CONSIDER = 10"

text \<open>\<open>getInteractionCount()\<close> is the host's running total; it is the parameter \<open>cnt\<close>.\<close>

definition getInteractionCountForNavigation :: "int \<Rightarrow> Session \<Rightarrow> int" where
  "getInteractionCountForNavigation cnt s = cnt - prevInteractionCount s"

text \<open>Truthiness of \<open>entry.interactionId\<close>: defined and not zero.\<close>

definition truthy :: "nat option \<Rightarrow> bool" where
  "truthy k = (case k of None \<Rightarrow> False | Some n \<Rightarrow> n \<noteq> 0)"

text \<open>
  \<open>longestInteractionList[longestInteractionList.length - 1]\<close>: \<open>undefined\<close> on the
  empty list.
\<close>

definition minLongestInteraction :: "Session \<Rightarrow> ref option" where
  "minLongestInteraction s =
     (if longestInteractionList s = [] then None else Some (last (longestInteractionList s)))"

text \<open>
  The admission test of \<open>processEntry\<close>, with the left-to-right evaluation of \<open>||\<close>.
  Reading \<open>.latency\<close> of \<open>undefined\<close> would throw a \<open>TypeError\<close>.
\<close>

definition admission :: "PerformanceEventTiming \<Rightarrow> Session \<Rightarrow> error + bool" where
  "admission entry s =
     (if longestInteractionMap s (interactionId entry) \<noteq> None then Inr True
      else if length (longestInteractionList s) < MAX_INTERACTIONS_TO_CONSIDER then Inr True
      else (case minLongestInteraction s of
              None \<Rightarrow> Inl TypeError
            | Some m \<Rightarrow> Inr (duration entry > latency (heap s m))))"

text \<open>The update-or-create branch.\<close>

definition upsert :: "PerformanceEventTiming \<Rightarrow> Session \<Rightarrow> Session" where
  "upsert entry s =
     (case longestInteractionMap s (interactionId entry) of
        Some existingInteraction \<Rightarrow>
          s\<lparr>heap := (heap s)(existingInteraction :=
               (heap s existingInteraction)
                 \<lparr>latency := max (latency (heap s existingInteraction)) (duration entry),
                  entries := entries (heap s existingInteraction) @ [entry]\<rparr>)\<rparr>
      | None \<Rightarrow>
          s\<lparr>heap := (heap s)(next_ref s :=
               \<lparr>ident = interactionId entry, latency = duration entry, entries = [entry]\<rparr>),
            next_ref := next_ref s + 1,
            longestInteractionMap := (longestInteractionMap s)(interactionId entry \<mapsto> next_ref s),
            longestInteractionList := longestInteractionList s @ [next_ref s]\<rparr>)"

text \<open>
  \<open>sort((a, b) => b.latency - a.latency)\<close> is a stable sort into descending latency;
  \<open>splice(10)\<close> keeps the first ten and hands the rest to the \<open>forEach\<close> that deletes
  their ids from the lookup object.
\<close>

definition sortByLatency :: "(ref \<Rightarrow> Interaction) \<Rightarrow> ref list \<Rightarrow> ref list" where
  "sortByLatency h rs = sort_key (\<lambda>r. - latency (h r)) rs"

definition deleteIds :: "(ref \<Rightarrow> Interaction) \<Rightarrow> ref list \<Rightarrow> (nat option \<rightharpoonup> ref) \<Rightarrow> (nat option \<rightharpoonup> ref)" where
  "deleteIds h removed m = foldl (\<lambda>m' i. m'(ident (h i) := None)) m removed"

definition sortAndTrim :: "Session \<Rightarrow> Session" where
  "sortAndTrim s =
     (let sorted_list = sortByLatency (heap s) (longestInteractionList s)
      in s\<lparr>longestInteractionList := take MAX_INTERACTIONS_TO_CONSIDER sorted_list,
           longestInteractionMap :=
             deleteIds (heap s) (drop MAX_INTERACTIONS_TO_CONSIDER sorted_list)
               (longestInteractionMap s)\<rparr>)"

definition processEntry :: "PerformanceEventTiming \<Rightarrow> Session \<Rightarrow> error + Session" where
  "processEntry entry s =
     (case admission entry s of
        Inl err \<Rightarrow> Inl err
      | Inr admitted \<Rightarrow> if admitted then Inr (sortAndTrim (upsert entry s)) else Inr s)"

text \<open>
  \<open>estimateP98LongestInteraction\<close>: an array read at a negative or too large index
  yields \<open>undefined\<close> (\<open>None\<close>).
\<close>

definition estimateP98LongestInteraction :: "int \<Rightarrow> Session \<Rightarrow> ref option" where
  "estimateP98LongestInteraction cnt s =
     (let candidateInteractionIndex =
            min (int (length (longestInteractionList s)) - 1)
                (getInteractionCountForNavigation cnt s div 50)
      in if 0 \<le> candidateInteractionIndex
            \<and> candidateInteractionIndex < int (length (longestInteractionList s))
         then Some (longestInteractionList s ! nat candidateInteractionIndex)
         else None)"

text \<open>The inner \<open>some\<close>/\<open>some\<close> of \<open>handleEntries\<close>.\<close>

definition noMatchingEntry :: "PerformanceEventTiming \<Rightarrow> Session \<Rightarrow> bool" where
  "noMatchingEntry entry s =
     (\<not> list_ex (\<lambda>interaction.
          list_ex (\<lambda>prevEntry. duration entry = duration prevEntry
                              \<and> startTime entry = startTime prevEntry)
                  (entries (heap s interaction)))
        (longestInteractionList s))"

text \<open>The body of the \<open>entries.forEach\<close> callback.\<close>

definition handleEntry :: "PerformanceEventTiming \<Rightarrow> Session \<Rightarrow> error + Session" where
  "handleEntry entry s =
     (case (if truthy (interactionId entry) then processEntry entry s else Inr s) of
        Inl err \<Rightarrow> Inl err
      | Inr s1 \<Rightarrow>
          if entryType entry = ''first-input''
          then (if noMatchingEntry entry s1 then processEntry entry s1 else Inr s1)
          else Inr s1)"

text \<open>\<open>forEach\<close>: an exception thrown by the callback ends the loop.\<close>

fun forEach :: "('a \<Rightarrow> Session \<Rightarrow> error + Session) \<Rightarrow> 'a list \<Rightarrow> Session \<Rightarrow> error + Session" where
  "forEach f [] s = Inr s"
| "forEach f (x # xs) s = (case f x s of Inl err \<Rightarrow> Inl err | Inr s1 \<Rightarrow> forEach f xs s1)"

definition metricEntries :: "Session \<Rightarrow> PerformanceEventTiming list" where
  "metricEntries s = (case mentries (metric s) of Own es \<Rightarrow> es | Shared r \<Rightarrow> entries (heap s r))"

definition report :: "bool \<Rightarrow> Session \<Rightarrow> Session" where
  "report forceReport s =
     s\<lparr>calls := calls s @ [Report forceReport (mvalue (metric s)) (metricEntries s)]\<rparr>"

text \<open>The part of \<open>handleEntries\<close> after the loop.\<close>

definition reportEstimate :: "int \<Rightarrow> Session \<Rightarrow> Session" where
  "reportEstimate cnt s =
     (case estimateP98LongestInteraction cnt s of
        None \<Rightarrow> s
      | Some inp \<Rightarrow>
          if latency (heap s inp) \<noteq> mvalue (metric s)
          then report False (s\<lparr>metric := \<lparr>mvalue = latency (heap s inp), mentries = Shared inp\<rparr>\<rparr>)
          else s)"

definition handleEntries :: "int \<Rightarrow> PerformanceEventTiming list \<Rightarrow> Session \<Rightarrow> error + Session" where
  "handleEntries cnt es s =
     (case forEach handleEntry es s of
        Inl err \<Rightarrow> Inl err
      | Inr s1 \<Rightarrow> Inr (reportEstimate cnt s1))"

text \<open>
  Modelled from the spec: \<open>initMetric\<close> is not among the sources. The spec describes the
  initial value as an unset, negative sentinel and the entries as a fresh empty list; the
  sentinel is taken to be \<open>-1\<close>.
\<close>

definition initMetric :: INPMetric where
  "initMetric = \<lparr>mvalue = - 1, mentries = Own []\<rparr>"

text \<open>The \<open>onHidden\<close> callback; \<open>records\<close> is what \<open>po.takeRecords()\<close> returns.\<close>

definition zeroIfUncaptured :: "int \<Rightarrow> Session \<Rightarrow> Session" where
  "zeroIfUncaptured cnt s =
     (if mvalue (metric s) < 0 \<and> getInteractionCountForNavigation cnt s > 0
      then s\<lparr>metric := \<lparr>mvalue = 0, mentries = Own []\<rparr>\<rparr>
      else s)"

definition onHidden :: "int \<Rightarrow> PerformanceEventTiming list \<Rightarrow> Session \<Rightarrow> error + Session" where
  "onHidden cnt records s =
     (case handleEntries cnt records s of
        Inl err \<Rightarrow> Inl err
      | Inr s1 \<Rightarrow> Inr (report True (zeroIfUncaptured cnt s1)))"

text \<open>The \<open>onBFCacheRestore\<close> callback. It does not touch \<open>longestInteractionMap\<close>.\<close>

definition onBFCacheRestore :: "int \<Rightarrow> Session \<Rightarrow> Session" where
  "onBFCacheRestore cnt s =
     s\<lparr>longestInteractionList := [],
       prevInteractionCount := cnt,
       metric := initMetric,
       calls := calls s @ [BindReporter]\<rparr>"

text \<open>
  The host drives the module by notifications, each carrying the total interaction count
  at that moment: a batch of observed entries, the page becoming hidden (with the records
  still pending), and a restore from the back/forward cache.
\<close>

datatype Notification =
  Entries int "PerformanceEventTiming list"
| Hidden int "PerformanceEventTiming list"
| BFCacheRestore int

fun notify :: "Notification \<Rightarrow> Session \<Rightarrow> error + Session" where
  "notify (Entries cnt es) s = handleEntries cnt es s"
| "notify (Hidden cnt records) s = onHidden cnt records s"
| "notify (BFCacheRestore cnt) s = Inr (onBFCacheRestore cnt s)"

definition run :: "Notification list \<Rightarrow> Session \<Rightarrow> error + Session" where
  "run ns s = forEach notify ns s"

text \<open>
  The state once the \<open>whenActivated\<close> callback has run: empty module state, a new metric
  and a reporter bound to it. No cell of the store is allocated yet; the content of
  unallocated cells is never read.
\<close>

definition activated :: Session where
  "activated =
     \<lparr>heap = (\<lambda>_. \<lparr>ident = None, latency = 0, entries = []\<rparr>),
      next_ref = 0,
      longestInteractionList = [],
      longestInteractionMap = Map.empty,
      prevInteractionCount = 0,
      metric = initMetric,
      calls = [BindReporter]\<rparr>"

section \<open>Derived notions\<close>

text \<open>The value of the admission test.\<close>

definition admits :: "PerformanceEventTiming \<Rightarrow> Session \<Rightarrow> bool" where
  "admits entry s =
     (longestInteractionMap s (interactionId entry) \<noteq> None
      \<or> length (longestInteractionList s) < MAX_INTERACTIONS_TO_CONSIDER
      \<or> (longestInteractionList s \<noteq> []
          \<and> duration entry > latency (heap s (last (longestInteractionList s)))))"

text \<open>The latencies of the listed interactions, in list order.\<close>

definition latencies :: "Session \<Rightarrow> real list" where
  "latencies s = map (\<lambda>r. latency (heap s r)) (longestInteractionList s)"

text \<open>The list has at most ten members and is in descending order of latency.\<close>

definition trackedSetOk :: "Session \<Rightarrow> bool" where
  "trackedSetOk s =
     (length (longestInteractionList s) \<le> MAX_INTERACTIONS_TO_CONSIDER
      \<and> sorted_wrt (\<lambda>a b. b \<le> a) (latencies s))"

text \<open>
  The lookup object and the list are in lock-step when the keys of the object are the
  ids of the interactions in the list, no two listed interactions share an id, and each
  listed interaction is the one stored under its id.
\<close>

definition indexed :: "(ref \<Rightarrow> Interaction) \<Rightarrow> (nat option \<rightharpoonup> ref) \<Rightarrow> ref list \<Rightarrow> bool" where
  "indexed h m rs =
     (dom m = set (map (\<lambda>r. ident (h r)) rs)
      \<and> distinct (map (\<lambda>r. ident (h r)) rs)
      \<and> list_all (\<lambda>r. m (ident (h r)) = Some r) rs)"

definition lockstep :: "Session \<Rightarrow> bool" where
  "lockstep s = indexed (heap s) (longestInteractionMap s) (longestInteractionList s)"

text \<open>Every reference in the list names an allocated object.\<close>

definition allocated :: "Session \<Rightarrow> bool" where
  "allocated s = list_all (\<lambda>r. r < next_ref s) (longestInteractionList s)"

definition consistent :: "Session \<Rightarrow> bool" where
  "consistent s = (lockstep s \<and> allocated s)"

text \<open>
  A record is well merged when it holds at least one fragment, its latency is the
  largest duration among its fragments, and all its fragments carry its id.
\<close>

definition mergedOk :: "Interaction \<Rightarrow> bool" where
  "mergedOk i =
     (entries i \<noteq> []
      \<and> latency i = Max (set (map duration (entries i)))
      \<and> list_all (\<lambda>f. interactionId f = ident i) (entries i))"

definition allMergedOk :: "Session \<Rightarrow> bool" where
  "allMergedOk s = list_all (\<lambda>r. mergedOk (heap s r)) [0..<next_ref s]"

text \<open>
  The fragments of a sequence that \<open>processEntry\<close> merges into the existing record
  \<open>r\<close>: those that find \<open>r\<close> under their id at the moment they are processed.
\<close>

fun mergedInto :: "ref \<Rightarrow> PerformanceEventTiming list \<Rightarrow> Session \<Rightarrow> PerformanceEventTiming list" where
  "mergedInto r [] s = []"
| "mergedInto r (entry # es) s =
     (if longestInteractionMap s (interactionId entry) = Some r then [entry] else [])
     @ (case processEntry entry s of Inl err \<Rightarrow> [] | Inr s1 \<Rightarrow> mergedInto r es s1)"

text \<open>Every key of the lookup object leads to an allocated record with that id.\<close>

definition keysMatch :: "Session \<Rightarrow> bool" where
  "keysMatch s =
     (\<forall>k. case longestInteractionMap s k of
            None \<Rightarrow> True
          | Some r \<Rightarrow> ident (heap s r) = k \<and> r < next_ref s)"

text \<open>A sequence of notifications without a restore from the back/forward cache.\<close>

definition noRestore :: "Notification list \<Rightarrow> bool" where
  "noRestore ns = list_all (\<lambda>n. case n of BFCacheRestore cnt \<Rightarrow> False | _ \<Rightarrow> True) ns"

section \<open>Sample inputs\<close>

text \<open>A fragment of the event type with an interaction id.\<close>

definition sampleEntry :: "nat \<Rightarrow> real \<Rightarrow> PerformanceEventTiming" where
  "sampleEntry i d = \<lparr>interactionId = Some i, duration = d, startTime = d, entryType = ''event''\<rparr>"


text \<open>
  Eleven distinct single-fragment interactions with latencies 10, 20, ..., 110, and the
  state they leave when they arrive in one batch after activation.
\<close>

definition elevenEntries :: "PerformanceEventTiming list" where
  "elevenEntries =
     [sampleEntry 1 10, sampleEntry 2 20, sampleEntry 3 30, sampleEntry 4 40,
      sampleEntry 5 50, sampleEntry 6 60, sampleEntry 7 70, sampleEntry 8 80,
      sampleEntry 9 90, sampleEntry 10 100, sampleEntry 11 110]"

definition tenTracked :: Session where
  "tenTracked =
     (case handleEntries 11 elevenEntries activated of Inr s \<Rightarrow> s | Inl _ \<Rightarrow> activated)"

text \<open>The state after one interaction (id 1, duration 100) has been observed.\<close>

definition oneTracked :: Session where
  "oneTracked =
     (case handleEntries 1 [sampleEntry 1 100] activated of Inr s \<Rightarrow> s | Inl _ \<Rightarrow> activated)"

text \<open>
  Ten further single-fragment interactions, ids 21 to 30, each with latency 100.
\<close>

definition tenLaterEntries :: "PerformanceEventTiming list" where
  "tenLaterEntries =
     [sampleEntry 21 100, sampleEntry 22 100, sampleEntry 23 100, sampleEntry 24 100,
      sampleEntry 25 100, sampleEntry 26 100, sampleEntry 27 100, sampleEntry 28 100,
      sampleEntry 29 100, sampleEntry 30 100]"

section \<open>Basic facts\<close>

lemma admission_Inr:
  "admission entry s =
     Inr (longestInteractionMap s (interactionId entry) \<noteq> None
          \<or> length (longestInteractionList s) < MAX_INTERACTIONS_TO_CONSIDER
          \<or> (longestInteractionList s \<noteq> []
              \<and> duration entry > latency (heap s (last (longestInteractionList s)))))"
  by (auto simp: admission_def minLongestInteraction_def MAX_INTERACTIONS_TO_CONSIDER_def)

lemma admission_admits: "admission entry s = Inr (admits entry s)"
  by (simp add: admission_Inr admits_def)

lemma processEntry_Inr:
  "processEntry entry s = Inr (if admits entry s then sortAndTrim (upsert entry s) else s)"
  by (simp add: processEntry_def admission_admits)

lemma sortAndTrim_frame [simp]:
  "heap (sortAndTrim s) = heap s"
  "next_ref (sortAndTrim s) = next_ref s"
  "prevInteractionCount (sortAndTrim s) = prevInteractionCount s"
  "metric (sortAndTrim s) = metric s"
  "calls (sortAndTrim s) = calls s"
  by (simp_all add: sortAndTrim_def Let_def)

lemma upsert_frame [simp]:
  "prevInteractionCount (upsert entry s) = prevInteractionCount s"
  "metric (upsert entry s) = metric s"
  "calls (upsert entry s) = calls s"
  by (simp_all add: upsert_def split: option.splits)

lemma handleEntry_preserves:
  assumes step: "\<And>s. P s \<Longrightarrow> \<exists>s'. processEntry entry s = Inr s' \<and> P s'"
    and "P s"
  shows "\<exists>s'. handleEntry entry s = Inr s' \<and> P s'"
proof -
  obtain s1 where s1: "(if truthy (interactionId entry) then processEntry entry s else Inr s) = Inr s1"
    and P1: "P s1"
    using step [OF \<open>P s\<close>] \<open>P s\<close> by (cases "truthy (interactionId entry)") auto
  obtain s2 where s2: "processEntry entry s1 = Inr s2" and P2: "P s2"
    using step [OF P1] by blast
  show ?thesis
    unfolding handleEntry_def s1 using P1 P2 s2 by simp
qed

lemma forEach_preserves:
  assumes step: "\<And>x s. P s \<Longrightarrow> \<exists>s'. f x s = Inr s' \<and> P s'"
  shows "P s \<Longrightarrow> \<exists>s'. forEach f xs s = Inr s' \<and> P s'"
proof (induction xs arbitrary: s)
  case Nil
  then show ?case by simp
next
  case (Cons x xs)
  from step [OF Cons.prems] obtain s1 where "f x s = Inr s1" "P s1" by blast
  with Cons.IH [of s1] show ?case by simp
qed

lemma forEach_handleEntry_preserves:
  assumes "\<And>entry s. P s \<Longrightarrow> \<exists>s'. processEntry entry s = Inr s' \<and> P s'"
    and "P s"
  shows "\<exists>s'. forEach handleEntry es s = Inr s' \<and> P s'"
proof (rule forEach_preserves [where P = P])
  fix x t assume "P t"
  then show "\<exists>s'. handleEntry x t = Inr s' \<and> P s'"
    using assms(1) by (rule handleEntry_preserves [where P = P, rotated])
qed (rule assms(2))

lemma processEntry_frame:
  "\<exists>s'. processEntry entry s = Inr s'
       \<and> metric s' = metric s \<and> calls s' = calls s
       \<and> prevInteractionCount s' = prevInteractionCount s"
  by (simp add: processEntry_Inr)

lemma forEach_handleEntry_frame:
  "\<exists>s'. forEach handleEntry es s = Inr s'
       \<and> metric s' = metric s \<and> calls s' = calls s
       \<and> prevInteractionCount s' = prevInteractionCount s"
proof -
  let ?P = "\<lambda>t::Session. metric t = metric s \<and> calls t = calls s
                \<and> prevInteractionCount t = prevInteractionCount s"
  have "\<exists>s'. forEach handleEntry es s = Inr s' \<and> ?P s'"
  proof (rule forEach_handleEntry_preserves [where P = ?P])
    fix entry t assume "?P t"
    then show "\<exists>s'. processEntry entry t = Inr s' \<and> ?P s'"
      using processEntry_frame [of entry t] by auto
  qed simp
  then show ?thesis by blast
qed

section \<open>Evaluation of the sample inputs\<close>

lemmas model_defs =
  processEntry_def admission_def upsert_def sortAndTrim_def sortByLatency_def deleteIds_def
  MAX_INTERACTIONS_TO_CONSIDER_def minLongestInteraction_def handleEntry_def truthy_def
  noMatchingEntry_def handleEntries_def reportEstimate_def estimateP98LongestInteraction_def
  getInteractionCountForNavigation_def report_def metricEntries_def activated_def
  initMetric_def run_def onHidden_def onBFCacheRestore_def zeroIfUncaptured_def
  sampleEntry_def

lemma handleEntries_eleven:
  "\<exists>s. handleEntries 11 elevenEntries activated = Inr s
     \<and> longestInteractionList s = [10, 9, 8, 7, 6, 5, 4, 3, 2, 1]
     \<and> latencies s = [110, 100, 90, 80, 70, 60, 50, 40, 30, 20]
     \<and> prevInteractionCount s = 0
     \<and> next_ref s = 11
     \<and> longestInteractionMap s (Some 1) = None
     \<and> longestInteractionMap s (Some 12) = None
     \<and> longestInteractionMap s (Some 11) = Some 10"
  by (simp add: model_defs elevenEntries_def latencies_def)

lemma tenTracked_simps:
  "longestInteractionList tenTracked = [10, 9, 8, 7, 6, 5, 4, 3, 2, 1]"
  "latencies tenTracked = [110, 100, 90, 80, 70, 60, 50, 40, 30, 20]"
  "prevInteractionCount tenTracked = 0"
  "next_ref tenTracked = 11"
  "longestInteractionMap tenTracked (Some 1) = None"
  "longestInteractionMap tenTracked (Some 12) = None"
  "longestInteractionMap tenTracked (Some 11) = Some 10"
  using handleEntries_eleven by (auto simp: tenTracked_def)

section \<open>Totality of the admission test\<close>

text \<open>
  C10. The admission test never reads the latency of an absent minimum: it cannot end
  in a \<open>TypeError\<close>; on the empty list it is decided by the length test before the
  minimum is looked at; the minimum is read only when the lookup failed and the list has
  at least ten members, and then it exists. So \<open>processEntry\<close> returns a state for
  every entry and every state.
\<close>

theorem processEntry_total:
  "admission entry s \<noteq> Inl TypeError
   \<and> (longestInteractionList s = [] \<longrightarrow>
        minLongestInteraction s = None \<and> admission entry s = Inr True)
   \<and> (longestInteractionMap s (interactionId entry) = None
        \<and> \<not> length (longestInteractionList s) < MAX_INTERACTIONS_TO_CONSIDER \<longrightarrow>
        minLongestInteraction s \<noteq> None \<and> 10 \<le> length (longestInteractionList s))
   \<and> (\<exists>s'. processEntry entry s = Inr s')"
  by (auto simp: admission_def minLongestInteraction_def MAX_INTERACTIONS_TO_CONSIDER_def
        processEntry_Inr)

theorem processEntry_total_witness:
  "longestInteractionList activated = []
   \<and> minLongestInteraction activated = None
   \<and> admission (sampleEntry 1 100) activated = Inr True
   \<and> (\<exists>s'. processEntry (sampleEntry 1 100) activated = Inr s')
   \<and> longestInteractionMap tenTracked (interactionId (sampleEntry 12 5)) = None
   \<and> \<not> length (longestInteractionList tenTracked) < MAX_INTERACTIONS_TO_CONSIDER
   \<and> minLongestInteraction tenTracked = Some 1
   \<and> admission (sampleEntry 12 5) tenTracked = Inr False
   \<and> processEntry (sampleEntry 12 5) tenTracked = Inr tenTracked"
proof -
  have a: "longestInteractionList activated = []"
    by (simp add: activated_def)
  have b: "longestInteractionMap tenTracked (interactionId (sampleEntry 12 5)) = None
           \<and> \<not> length (longestInteractionList tenTracked) < MAX_INTERACTIONS_TO_CONSIDER"
    by (simp add: tenTracked_simps sampleEntry_def MAX_INTERACTIONS_TO_CONSIDER_def)
  have c: "latency (heap tenTracked 1) = 20"
    using tenTracked_simps(2) by (simp add: latencies_def tenTracked_simps(1))
  have d: "admission (sampleEntry 12 5) tenTracked = Inr False"
    using b c by (simp add: admission_def minLongestInteraction_def tenTracked_simps(1)
        sampleEntry_def)
  show ?thesis
    using processEntry_total [of "sampleEntry 1 100" activated]
      processEntry_total [of "sampleEntry 12 5" tenTracked] a b d
    by (simp add: minLongestInteraction_def tenTracked_simps(1) processEntry_def)
qed

section \<open>The percentile estimator\<close>

text \<open>
  C3. With a tracked list of length L > 0 and N >= 0 interactions since the baseline,
  the estimator returns the interaction at index min (L - 1) (N div 50) of the list;
  on the empty list it returns no estimate. With L = 10, N in 0..49 selects index 0,
  N in 50..99 index 1, and N >= 500 index 9.
\<close>

theorem estimate_index:
  "(0 < length (longestInteractionList s) \<and> 0 \<le> getInteractionCountForNavigation cnt s \<longrightarrow>
      estimateP98LongestInteraction cnt s =
        Some (longestInteractionList s !
                nat (min (int (length (longestInteractionList s)) - 1)
                         (getInteractionCountForNavigation cnt s div 50))))
   \<and> (longestInteractionList s = [] \<longrightarrow> estimateP98LongestInteraction cnt s = None)
   \<and> (length (longestInteractionList s) = 10 \<and> 0 \<le> getInteractionCountForNavigation cnt s
        \<and> getInteractionCountForNavigation cnt s \<le> 49 \<longrightarrow>
        estimateP98LongestInteraction cnt s = Some (longestInteractionList s ! 0))
   \<and> (length (longestInteractionList s) = 10 \<and> 50 \<le> getInteractionCountForNavigation cnt s
        \<and> getInteractionCountForNavigation cnt s \<le> 99 \<longrightarrow>
        estimateP98LongestInteraction cnt s = Some (longestInteractionList s ! 1))
   \<and> (length (longestInteractionList s) = 10 \<and> 500 \<le> getInteractionCountForNavigation cnt s \<longrightarrow>
        estimateP98LongestInteraction cnt s = Some (longestInteractionList s ! 9))"
proof -
  let ?L = "length (longestInteractionList s)"
  let ?N = "getInteractionCountForNavigation cnt s"
  have general: "estimateP98LongestInteraction cnt s =
      Some (longestInteractionList s ! nat (min (int ?L - 1) (?N div 50)))"
    if "0 < ?L" "0 \<le> ?N"
  proof -
    from that have "0 \<le> ?N div 50" by simp
    with that show ?thesis
      by (simp add: estimateP98LongestInteraction_def Let_def min_def)
  qed
  have empty: "estimateP98LongestInteraction cnt s = None" if "longestInteractionList s = []"
    using that by (simp add: estimateP98LongestInteraction_def Let_def)
  have first: "nat (min (int ?L - 1) (?N div 50)) = 0" if "?L = 10" "0 \<le> ?N" "?N \<le> 49"
    using that by simp
  have second: "nat (min (int ?L - 1) (?N div 50)) = 1" if "?L = 10" "50 \<le> ?N" "?N \<le> 99"
  proof -
    from that have "?N div 50 = 1" by simp
    with that show ?thesis by simp
  qed
  have last: "nat (min (int ?L - 1) (?N div 50)) = 9" if "?L = 10" "500 \<le> ?N"
  proof -
    from that have "10 \<le> ?N div 50" by simp
    with that show ?thesis by simp
  qed
  show ?thesis
  proof (intro conjI impI)
    assume "0 < ?L \<and> 0 \<le> ?N"
    then show "estimateP98LongestInteraction cnt s =
        Some (longestInteractionList s ! nat (min (int ?L - 1) (?N div 50)))"
      using general by blast
  next
    assume "longestInteractionList s = []"
    then show "estimateP98LongestInteraction cnt s = None" by (rule empty)
  next
    assume h: "?L = 10 \<and> 0 \<le> ?N \<and> ?N \<le> 49"
    then have "estimateP98LongestInteraction cnt s =
        Some (longestInteractionList s ! nat (min (int ?L - 1) (?N div 50)))"
      by (intro general) simp_all
    with h first show "estimateP98LongestInteraction cnt s = Some (longestInteractionList s ! 0)"
      by presburger
  next
    assume h: "?L = 10 \<and> 50 \<le> ?N \<and> ?N \<le> 99"
    then have "estimateP98LongestInteraction cnt s =
        Some (longestInteractionList s ! nat (min (int ?L - 1) (?N div 50)))"
      by (intro general) simp_all
    with h second show "estimateP98LongestInteraction cnt s = Some (longestInteractionList s ! 1)"
      by presburger
  next
    assume h: "?L = 10 \<and> 500 \<le> ?N"
    then have "estimateP98LongestInteraction cnt s =
        Some (longestInteractionList s ! nat (min (int ?L - 1) (?N div 50)))"
      by (intro general) simp_all
    with h last show "estimateP98LongestInteraction cnt s = Some (longestInteractionList s ! 9)"
      by presburger
  qed
qed

theorem estimate_index_witness:
  "estimateP98LongestInteraction 0 activated = None
   \<and> length (longestInteractionList tenTracked) = 10
   \<and> estimateP98LongestInteraction 0 tenTracked = Some 10
   \<and> estimateP98LongestInteraction 49 tenTracked = Some 10
   \<and> estimateP98LongestInteraction 50 tenTracked = Some 9
   \<and> estimateP98LongestInteraction 99 tenTracked = Some 9
   \<and> estimateP98LongestInteraction 275 tenTracked = Some 5
   \<and> estimateP98LongestInteraction 500 tenTracked = Some 1
   \<and> estimateP98LongestInteraction 100000 tenTracked = Some 1"
proof -
  have a: "longestInteractionList activated = []"
    by (simp add: activated_def)
  note t = tenTracked_simps(1) tenTracked_simps(3) getInteractionCountForNavigation_def
  show ?thesis
    using a estimate_index [of activated 0] estimate_index [of tenTracked 0]
      estimate_index [of tenTracked 49] estimate_index [of tenTracked 50]
      estimate_index [of tenTracked 99] estimate_index [of tenTracked 275]
      estimate_index [of tenTracked 500] estimate_index [of tenTracked 100000]
    by (simp add: t)
qed

section \<open>The change-gated report\<close>

lemma reportEstimate_frame [simp]:
  "heap (reportEstimate cnt s) = heap s"
  "next_ref (reportEstimate cnt s) = next_ref s"
  "longestInteractionList (reportEstimate cnt s) = longestInteractionList s"
  "longestInteractionMap (reportEstimate cnt s) = longestInteractionMap s"
  "prevInteractionCount (reportEstimate cnt s) = prevInteractionCount s"
  by (simp_all add: reportEstimate_def report_def split: option.splits)

lemma handleEntries_Inr:
  "\<exists>s1. forEach handleEntry es s = Inr s1
        \<and> handleEntries cnt es s = Inr (reportEstimate cnt s1)
        \<and> metric s1 = metric s \<and> calls s1 = calls s
        \<and> prevInteractionCount s1 = prevInteractionCount s"
  using forEach_handleEntry_frame [of es s] by (auto simp: handleEntries_def)

text \<open>
  C8. After a batch has been processed and the estimate recomputed, the reporter is
  called only if an estimate exists and its latency differs from the value the metric
  held; when it is called, the metric's value and entries have been set to the estimate
  first, so the call carries them; and when the tracked list is empty there is no
  estimate, no call, and the metric is left as it was.
\<close>

theorem report_only_on_change:
  "\<exists>s1 s'. forEach handleEntry es s = Inr s1 \<and> handleEntries cnt es s = Inr s'
     \<and> (calls s' \<noteq> calls s \<longrightarrow>
          (\<exists>inp. estimateP98LongestInteraction cnt s1 = Some inp
                 \<and> latency (heap s1 inp) \<noteq> mvalue (metric s)))
     \<and> (\<forall>inp. estimateP98LongestInteraction cnt s1 = Some inp
                 \<and> latency (heap s1 inp) \<noteq> mvalue (metric s) \<longrightarrow>
            mvalue (metric s') = latency (heap s1 inp)
            \<and> mentries (metric s') = Shared inp
            \<and> metricEntries s' = entries (heap s1 inp)
            \<and> calls s' = calls s @ [Report False (latency (heap s1 inp)) (entries (heap s1 inp))])
     \<and> (\<forall>inp. estimateP98LongestInteraction cnt s1 = Some inp
                 \<and> latency (heap s1 inp) = mvalue (metric s) \<longrightarrow>
            calls s' = calls s \<and> metric s' = metric s)
     \<and> (longestInteractionList s1 = [] \<longrightarrow>
            estimateP98LongestInteraction cnt s1 = None
            \<and> calls s' = calls s \<and> metric s' = metric s)"
proof -
  obtain s1 where s1: "forEach handleEntry es s = Inr s1"
    and h: "handleEntries cnt es s = Inr (reportEstimate cnt s1)"
    and m: "metric s1 = metric s" and c: "calls s1 = calls s"
    using handleEntries_Inr [of es s cnt] by blast
  have empty: "estimateP98LongestInteraction cnt s1 = None" if "longestInteractionList s1 = []"
    using that by (simp add: estimateP98LongestInteraction_def Let_def)
  have "(calls (reportEstimate cnt s1) \<noteq> calls s \<longrightarrow>
          (\<exists>inp. estimateP98LongestInteraction cnt s1 = Some inp
                 \<and> latency (heap s1 inp) \<noteq> mvalue (metric s)))"
    using m c by (auto simp: reportEstimate_def report_def split: option.splits)
  moreover have "\<forall>inp. estimateP98LongestInteraction cnt s1 = Some inp
                 \<and> latency (heap s1 inp) \<noteq> mvalue (metric s) \<longrightarrow>
            mvalue (metric (reportEstimate cnt s1)) = latency (heap s1 inp)
            \<and> mentries (metric (reportEstimate cnt s1)) = Shared inp
            \<and> metricEntries (reportEstimate cnt s1) = entries (heap s1 inp)
            \<and> calls (reportEstimate cnt s1) =
                calls s @ [Report False (latency (heap s1 inp)) (entries (heap s1 inp))]"
    using m c by (auto simp: reportEstimate_def report_def metricEntries_def)
  moreover have "\<forall>inp. estimateP98LongestInteraction cnt s1 = Some inp
                 \<and> latency (heap s1 inp) = mvalue (metric s) \<longrightarrow>
            calls (reportEstimate cnt s1) = calls s \<and> metric (reportEstimate cnt s1) = metric s"
    using m c by (auto simp: reportEstimate_def)
  moreover have "longestInteractionList s1 = [] \<longrightarrow>
            estimateP98LongestInteraction cnt s1 = None
            \<and> calls (reportEstimate cnt s1) = calls s \<and> metric (reportEstimate cnt s1) = metric s"
    using m c empty by (auto simp: reportEstimate_def)
  ultimately show ?thesis
    using s1 h by blast
qed

theorem report_only_on_change_witness:
  "(\<exists>s1 s'. forEach handleEntry [sampleEntry 1 100] activated = Inr s1
      \<and> handleEntries 1 [sampleEntry 1 100] activated = Inr s'
      \<and> estimateP98LongestInteraction 1 s1 = Some 0
      \<and> latency (heap s1 0) = 100 \<and> mvalue (metric activated) = - 1
      \<and> mvalue (metric s') = 100
      \<and> metricEntries s' = [sampleEntry 1 100]
      \<and> calls s' = [BindReporter, Report False 100 [sampleEntry 1 100]]
      \<and> calls s' \<noteq> calls activated)
   \<and> (\<exists>s1 s'. forEach handleEntry [] activated = Inr s1
      \<and> handleEntries 0 [] activated = Inr s'
      \<and> longestInteractionList s1 = []
      \<and> calls s' = calls activated \<and> metric s' = metric activated)"
proof -
  have a: "forEach handleEntry [sampleEntry 1 100] activated =
             Inr (sortAndTrim (upsert (sampleEntry 1 100) activated))"
    by (simp add: handleEntry_def truthy_def processEntry_Inr admits_def sampleEntry_def
        activated_def MAX_INTERACTIONS_TO_CONSIDER_def)
  have b: "estimateP98LongestInteraction 1 (sortAndTrim (upsert (sampleEntry 1 100) activated)) = Some 0"
    "latency (heap (sortAndTrim (upsert (sampleEntry 1 100) activated)) 0) = 100"
    "entries (heap (sortAndTrim (upsert (sampleEntry 1 100) activated)) 0) = [sampleEntry 1 100]"
    "mvalue (metric activated) = - 1" "calls activated = [BindReporter]"
    by (simp_all add: model_defs)
  have c: "forEach handleEntry [] activated = Inr activated"
    "longestInteractionList activated = []"
    by (simp_all add: activated_def)
  from report_only_on_change [of "[sampleEntry 1 100]" activated 1]
  have first: "\<exists>s1 s'. forEach handleEntry [sampleEntry 1 100] activated = Inr s1
      \<and> handleEntries 1 [sampleEntry 1 100] activated = Inr s'
      \<and> estimateP98LongestInteraction 1 s1 = Some 0
      \<and> latency (heap s1 0) = 100 \<and> mvalue (metric activated) = - 1
      \<and> mvalue (metric s') = 100
      \<and> metricEntries s' = [sampleEntry 1 100]
      \<and> calls s' = [BindReporter, Report False 100 [sampleEntry 1 100]]
      \<and> calls s' \<noteq> calls activated"
    unfolding a using b by auto
  from report_only_on_change [of "[]" activated 0]
  have second: "\<exists>s1 s'. forEach handleEntry [] activated = Inr s1
      \<and> handleEntries 0 [] activated = Inr s'
      \<and> longestInteractionList s1 = []
      \<and> calls s' = calls activated \<and> metric s' = metric activated"
    unfolding c(1) using c(2) by auto
  from first second show ?thesis by blast
qed

section \<open>The report when the page becomes hidden\<close>

text \<open>
  C7. When the page becomes hidden and the pending records have been handled: if the
  metric value is still negative (unset) and the interaction count since the baseline
  is greater than zero, the metric is set to value 0 with an empty entries list and the
  forced report carries exactly that; otherwise the rule changes nothing, and the forced
  report carries the metric as it stands. After activation, with no entries observed and
  a count of 3, the report carries value 0 and no entries.
\<close>

theorem hidden_reports_zero:
  "\<exists>s1 s'. handleEntries cnt records s = Inr s1 \<and> onHidden cnt records s = Inr s'
     \<and> (mvalue (metric s1) < 0 \<and> 0 < getInteractionCountForNavigation cnt s1 \<longrightarrow>
          mvalue (metric s') = 0 \<and> metricEntries s' = []
          \<and> calls s' = calls s1 @ [Report True 0 []])
     \<and> (mvalue (metric s1) < 0 \<and> getInteractionCountForNavigation cnt s1 \<le> 0 \<longrightarrow>
          metric s' = metric s1
          \<and> calls s' = calls s1 @ [Report True (mvalue (metric s1)) (metricEntries s1)])
     \<and> (0 \<le> mvalue (metric s1) \<longrightarrow>
          metric s' = metric s1
          \<and> calls s' = calls s1 @ [Report True (mvalue (metric s1)) (metricEntries s1)])"
proof -
  obtain s0 where h: "handleEntries cnt records s = Inr (reportEstimate cnt s0)"
    using handleEntries_Inr [of records s cnt] by blast
  let ?s1 = "reportEstimate cnt s0"
  have o: "onHidden cnt records s = Inr (report True (zeroIfUncaptured cnt ?s1))"
    by (simp add: onHidden_def h)
  have "mvalue (metric ?s1) < 0 \<and> 0 < getInteractionCountForNavigation cnt ?s1 \<longrightarrow>
          mvalue (metric (report True (zeroIfUncaptured cnt ?s1))) = 0
          \<and> metricEntries (report True (zeroIfUncaptured cnt ?s1)) = []
          \<and> calls (report True (zeroIfUncaptured cnt ?s1)) = calls ?s1 @ [Report True 0 []]"
    by (simp add: report_def zeroIfUncaptured_def metricEntries_def)
  moreover have "mvalue (metric ?s1) < 0 \<and> getInteractionCountForNavigation cnt ?s1 \<le> 0 \<longrightarrow>
          metric (report True (zeroIfUncaptured cnt ?s1)) = metric ?s1
          \<and> calls (report True (zeroIfUncaptured cnt ?s1)) =
              calls ?s1 @ [Report True (mvalue (metric ?s1)) (metricEntries ?s1)]"
    by (simp add: report_def zeroIfUncaptured_def)
  moreover have "0 \<le> mvalue (metric ?s1) \<longrightarrow>
          metric (report True (zeroIfUncaptured cnt ?s1)) = metric ?s1
          \<and> calls (report True (zeroIfUncaptured cnt ?s1)) =
              calls ?s1 @ [Report True (mvalue (metric ?s1)) (metricEntries ?s1)]"
    by (simp add: report_def zeroIfUncaptured_def)
  ultimately show ?thesis
    using h o by blast
qed

theorem hidden_reports_zero_witness:
  "(\<exists>s1 s'. handleEntries 3 [] activated = Inr s1 \<and> onHidden 3 [] activated = Inr s'
      \<and> mvalue (metric s1) < 0 \<and> 0 < getInteractionCountForNavigation 3 s1
      \<and> mvalue (metric s') = 0 \<and> metricEntries s' = []
      \<and> calls s' = [BindReporter, Report True 0 []])
   \<and> (\<exists>s1 s'. handleEntries 0 [] activated = Inr s1 \<and> onHidden 0 [] activated = Inr s'
      \<and> mvalue (metric s1) < 0 \<and> getInteractionCountForNavigation 0 s1 \<le> 0
      \<and> mvalue (metric s') = - 1
      \<and> calls s' = [BindReporter, Report True (- 1) []])
   \<and> (\<exists>s1 s'. handleEntries 1 [sampleEntry 1 100] activated = Inr s1
      \<and> onHidden 1 [sampleEntry 1 100] activated = Inr s'
      \<and> 0 \<le> mvalue (metric s1)
      \<and> mvalue (metric s') = 100
      \<and> calls s' = [BindReporter, Report False 100 [sampleEntry 1 100],
                      Report True 100 [sampleEntry 1 100]])"
proof -
  have a: "handleEntries 3 [] activated = Inr activated"
    "handleEntries 0 [] activated = Inr activated"
    by (simp_all add: model_defs)
  have b: "mvalue (metric activated) = - 1" "calls activated = [BindReporter]"
    "metricEntries activated = []"
    "getInteractionCountForNavigation 3 activated = 3"
    "getInteractionCountForNavigation 0 activated = 0"
    by (simp_all add: model_defs)
  obtain t where t: "handleEntries 1 [sampleEntry 1 100] activated = Inr t"
    "mvalue (metric t) = 100" "metricEntries t = [sampleEntry 1 100]"
    "calls t = [BindReporter, Report False 100 [sampleEntry 1 100]]"
    by (simp add: model_defs)
  from hidden_reports_zero [of 3 "[]" activated]
  have first: "\<exists>s1 s'. handleEntries 3 [] activated = Inr s1 \<and> onHidden 3 [] activated = Inr s'
      \<and> mvalue (metric s1) < 0 \<and> 0 < getInteractionCountForNavigation 3 s1
      \<and> mvalue (metric s') = 0 \<and> metricEntries s' = []
      \<and> calls s' = [BindReporter, Report True 0 []]"
    unfolding a using b by auto
  from hidden_reports_zero [of 0 "[]" activated]
  have second: "\<exists>s1 s'. handleEntries 0 [] activated = Inr s1 \<and> onHidden 0 [] activated = Inr s'
      \<and> mvalue (metric s1) < 0 \<and> getInteractionCountForNavigation 0 s1 \<le> 0
      \<and> mvalue (metric s') = - 1
      \<and> calls s' = [BindReporter, Report True (- 1) []]"
    unfolding a using b by auto
  from hidden_reports_zero [of 1 "[sampleEntry 1 100]" activated]
  have third: "\<exists>s1 s'. handleEntries 1 [sampleEntry 1 100] activated = Inr s1
      \<and> onHidden 1 [sampleEntry 1 100] activated = Inr s'
      \<and> 0 \<le> mvalue (metric s1)
      \<and> mvalue (metric s') = 100
      \<and> calls s' = [BindReporter, Report False 100 [sampleEntry 1 100],
                      Report True 100 [sampleEntry 1 100]]"
    unfolding t(1) using t(2-) by auto
  from first second third show ?thesis by blast
qed

section \<open>The bound and the order of the tracked list\<close>

lemma sortByLatency_descending:
  "sorted_wrt (\<lambda>a b. b \<le> a) (map (\<lambda>r. latency (h r)) (sortByLatency h rs))"
proof -
  have "sorted (map (\<lambda>r. - latency (h r)) (sortByLatency h rs))"
    by (simp add: sortByLatency_def)
  then show ?thesis
    by (simp add: sorted_wrt_map)
qed

lemma sortAndTrim_ok: "trackedSetOk (sortAndTrim s)"
proof -
  let ?xs = "sortByLatency (heap s) (longestInteractionList s)"
  have "sorted_wrt (\<lambda>a b. b \<le> a) (map (\<lambda>r. latency (heap s r)) ?xs)"
    by (rule sortByLatency_descending)
  then have "sorted_wrt (\<lambda>a b. b \<le> a)
      (take MAX_INTERACTIONS_TO_CONSIDER (map (\<lambda>r. latency (heap s r)) ?xs))"
    by (rule sorted_wrt_take)
  then show ?thesis
    by (simp add: trackedSetOk_def latencies_def sortAndTrim_def Let_def take_map)
qed

lemma processEntry_ok:
  "trackedSetOk s \<Longrightarrow> \<exists>s'. processEntry entry s = Inr s' \<and> trackedSetOk s'"
  by (simp add: processEntry_Inr sortAndTrim_ok)

lemma trackedSetOk_cong:
  "longestInteractionList s' = longestInteractionList s \<Longrightarrow> heap s' = heap s \<Longrightarrow>
   trackedSetOk s' = trackedSetOk s"
  by (simp add: trackedSetOk_def latencies_def)

lemma handleEntries_ok:
  assumes "trackedSetOk s"
  shows "\<exists>s'. handleEntries cnt es s = Inr s' \<and> trackedSetOk s'"
proof -
  obtain s1 where "forEach handleEntry es s = Inr s1" "trackedSetOk s1"
    using forEach_handleEntry_preserves [where P = trackedSetOk, OF processEntry_ok assms]
    by blast
  then show ?thesis
    by (simp add: handleEntries_def trackedSetOk_cong [of "reportEstimate cnt s1" s1])
qed

lemma notify_ok:
  assumes "trackedSetOk s"
  shows "\<exists>s'. notify n s = Inr s' \<and> trackedSetOk s'"
proof (cases n)
  case (Entries cnt es)
  then show ?thesis using handleEntries_ok [OF assms] by simp
next
  case (Hidden cnt records)
  obtain s1 where s1: "handleEntries cnt records s = Inr s1" "trackedSetOk s1"
    using handleEntries_ok [OF assms] by blast
  have "trackedSetOk (report True (zeroIfUncaptured cnt s1)) = trackedSetOk s1"
    by (rule trackedSetOk_cong) (simp_all add: report_def zeroIfUncaptured_def)
  with Hidden s1 show ?thesis by (simp add: onHidden_def)
next
  case (BFCacheRestore cnt)
  then show ?thesis
    by (simp add: onBFCacheRestore_def trackedSetOk_def latencies_def)
qed

lemma activated_ok: "trackedSetOk activated"
  by (simp add: trackedSetOk_def latencies_def activated_def)

text \<open>
  C4. The tracked list never has more than ten members and is always in descending
  order of latency: this holds after activation, is kept by every processed entry, and
  so holds after every sequence of notifications. Eleven single-fragment interactions
  with latencies 10, 20, ..., 110 leave the ten with latencies 110 down to 20.
\<close>

theorem tracked_bounded_sorted:
  "trackedSetOk activated
   \<and> (trackedSetOk s \<longrightarrow> (\<exists>s'. processEntry entry s = Inr s' \<and> trackedSetOk s'))
   \<and> (\<exists>s'. run ns activated = Inr s'
          \<and> length (longestInteractionList s') \<le> 10
          \<and> sorted_wrt (\<lambda>a b. b \<le> a) (latencies s'))
   \<and> (\<exists>s'. run [Entries 11 elevenEntries] activated = Inr s'
          \<and> latencies s' = [110, 100, 90, 80, 70, 60, 50, 40, 30, 20])"
proof -
  have "\<exists>s'. run ns activated = Inr s' \<and> trackedSetOk s'"
    unfolding run_def
    by (rule forEach_preserves [where P = trackedSetOk, OF notify_ok activated_ok])
  then have "\<exists>s'. run ns activated = Inr s'
          \<and> length (longestInteractionList s') \<le> 10
          \<and> sorted_wrt (\<lambda>a b. b \<le> a) (latencies s')"
    by (simp add: trackedSetOk_def MAX_INTERACTIONS_TO_CONSIDER_def)
  moreover have "\<exists>s'. run [Entries 11 elevenEntries] activated = Inr s'
          \<and> latencies s' = [110, 100, 90, 80, 70, 60, 50, 40, 30, 20]"
    using handleEntries_eleven by (auto simp: run_def)
  ultimately show ?thesis
    using activated_ok processEntry_ok by blast
qed

theorem tracked_bounded_sorted_witness:
  "trackedSetOk tenTracked
   \<and> (\<exists>s'. processEntry (sampleEntry 12 120) tenTracked = Inr s' \<and> trackedSetOk s'
          \<and> latencies s' = [120, 110, 100, 90, 80, 70, 60, 50, 40, 30])"
proof -
  have ok: "trackedSetOk tenTracked"
    by (simp add: trackedSetOk_def tenTracked_simps MAX_INTERACTIONS_TO_CONSIDER_def)
  have lat: "map (\<lambda>r. latency (heap tenTracked r)) [10, 9, 8, 7, 6, 5, 4, 3, 2, 1] =
      [110, 100, 90, 80, 70, 60, 50, 40, 30, 20]"
    using tenTracked_simps(2) by (simp add: latencies_def tenTracked_simps(1))
  have "processEntry (sampleEntry 12 120) tenTracked =
      Inr (sortAndTrim (upsert (sampleEntry 12 120) tenTracked))"
    using lat by (simp add: processEntry_Inr admits_def tenTracked_simps sampleEntry_def)
  moreover have "latencies (sortAndTrim (upsert (sampleEntry 12 120) tenTracked)) =
      [120, 110, 100, 90, 80, 70, 60, 50, 40, 30]"
    using lat by (simp add: upsert_def sortAndTrim_def sortByLatency_def latencies_def
        tenTracked_simps sampleEntry_def MAX_INTERACTIONS_TO_CONSIDER_def)
  ultimately show ?thesis
    using tracked_bounded_sorted [of tenTracked "sampleEntry 12 120" "[]"] ok by auto
qed

section \<open>Lock-step of the list and the lookup object\<close>

lemma indexed_lookup:
  assumes "indexed h m rs"
  shows "(m k = Some r) = (r \<in> set rs \<and> ident (h r) = k)"
proof
  assume mk: "m k = Some r"
  then have "k \<in> dom m" by (simp add: domIff)
  with assms obtain r' where r': "r' \<in> set rs" "ident (h r') = k"
    by (auto simp: indexed_def)
  with assms have "m k = Some r'"
    by (auto simp: indexed_def list_all_iff)
  with mk r' show "r \<in> set rs \<and> ident (h r) = k" by simp
next
  assume "r \<in> set rs \<and> ident (h r) = k"
  with assms show "m k = Some r"
    by (auto simp: indexed_def list_all_iff)
qed

lemma indexed_ident_cong:
  "(\<And>r. ident (h' r) = ident (h r)) \<Longrightarrow> indexed h' m rs = indexed h m rs"
  by (simp add: indexed_def)

lemma indexed_mset:
  assumes "mset rs = mset rs'"
  shows "indexed h m rs = indexed h m rs'"
proof -
  have "set rs = set rs'"
    using assms by (rule mset_eq_setD)
  moreover have "mset (map (\<lambda>r. ident (h r)) rs) = mset (map (\<lambda>r. ident (h r)) rs')"
    using assms by simp
  then have "distinct (map (\<lambda>r. ident (h r)) rs) = distinct (map (\<lambda>r. ident (h r)) rs')"
    by (rule mset_eq_imp_distinct_iff)
  ultimately show ?thesis
    by (simp add: indexed_def list_all_iff)
qed

lemma deleteIds_apply:
  "deleteIds h removed m k = (if k \<in> set (map (\<lambda>r. ident (h r)) removed) then None else m k)"
  unfolding deleteIds_def
  by (induction removed arbitrary: m) auto

lemma indexed_deleteIds:
  assumes "indexed h m (kept @ removed)"
  shows "indexed h (deleteIds h removed m) kept"
proof -
  let ?f = "\<lambda>r. ident (h r)"
  define K where "K = ?f ` set kept"
  define R where "R = ?f ` set removed"
  from assms have d: "dom m = K \<union> R"
    by (simp add: indexed_def image_Un K_def R_def)
  from assms have "distinct (map ?f kept @ map ?f removed)"
    by (simp add: indexed_def)
  then have dist: "distinct (map ?f kept)" and disj: "K \<inter> R = {}"
    by (simp_all add: K_def R_def)
  from assms have look: "\<forall>r\<in>set kept. m (?f r) = Some r"
    by (simp add: indexed_def list_all_iff)
  have "k \<in> dom (deleteIds h removed m) \<longleftrightarrow> k \<in> dom m \<and> k \<notin> R" for k
    by (simp add: deleteIds_apply domIff R_def)
  then have "dom (deleteIds h removed m) = dom m - R"
    by (simp add: set_eq_iff)
  with d disj have "dom (deleteIds h removed m) = K"
    by (simp add: Un_Diff Int_commute Diff_triv)
  then have 1: "dom (deleteIds h removed m) = set (map ?f kept)"
    by (simp add: K_def)
  have "deleteIds h removed m (?f r) = Some r" if "r \<in> set kept" for r
  proof -
    from that have "?f r \<in> K" by (simp add: K_def)
    with disj have "?f r \<notin> R" by (simp add: disjoint_iff)
    then have "deleteIds h removed m (?f r) = m (?f r)"
      by (simp add: deleteIds_apply R_def)
    with that look show ?thesis by simp
  qed
  then have 2: "list_all (\<lambda>r. deleteIds h removed m (?f r) = Some r) kept"
    by (simp add: list_all_iff)
  from 1 dist 2 show ?thesis
    unfolding indexed_def by (intro conjI)
qed

lemma mset_sortByLatency [simp]: "mset (sortByLatency h rs) = mset rs"
  by (simp add: sortByLatency_def)

lemma set_sortByLatency [simp]: "set (sortByLatency h rs) = set rs"
  by (simp add: sortByLatency_def)

lemma length_sortByLatency [simp]: "length (sortByLatency h rs) = length rs"
  by (simp add: sortByLatency_def)

lemma sortAndTrim_lockstep:
  assumes "lockstep s"
  shows "lockstep (sortAndTrim s)"
proof -
  let ?xs = "sortByLatency (heap s) (longestInteractionList s)"
  have "indexed (heap s) (longestInteractionMap s) ?xs"
    using assms indexed_mset [of ?xs "longestInteractionList s"] by (simp add: lockstep_def)
  then have "indexed (heap s) (longestInteractionMap s)
      (take MAX_INTERACTIONS_TO_CONSIDER ?xs @ drop MAX_INTERACTIONS_TO_CONSIDER ?xs)"
    by simp
  then have "indexed (heap s)
      (deleteIds (heap s) (drop MAX_INTERACTIONS_TO_CONSIDER ?xs) (longestInteractionMap s))
      (take MAX_INTERACTIONS_TO_CONSIDER ?xs)"
    by (rule indexed_deleteIds)
  then show ?thesis
    by (simp add: lockstep_def sortAndTrim_def Let_def)
qed

lemma sortAndTrim_allocated:
  assumes "allocated s"
  shows "allocated (sortAndTrim s)"
proof -
  have "set (take MAX_INTERACTIONS_TO_CONSIDER
          (sortByLatency (heap s) (longestInteractionList s))) \<subseteq> set (longestInteractionList s)"
    using set_take_subset [of MAX_INTERACTIONS_TO_CONSIDER
        "sortByLatency (heap s) (longestInteractionList s)"] by simp
  with assms show ?thesis
    by (auto simp: allocated_def sortAndTrim_def Let_def list_all_iff)
qed

lemma upsert_consistent:
  assumes "consistent s"
  shows "consistent (upsert entry s)"
proof (cases "longestInteractionMap s (interactionId entry)")
  case None
  let ?k = "interactionId entry"
  let ?f = "\<lambda>r. ident (heap s r)"
  from assms have ix: "indexed (heap s) (longestInteractionMap s) (longestInteractionList s)"
    and al: "\<forall>r\<in>set (longestInteractionList s). r < next_ref s"
    by (simp_all add: consistent_def lockstep_def allocated_def list_all_iff)
  from ix have "dom (longestInteractionMap s) = ?f ` set (longestInteractionList s)"
    by (simp add: indexed_def)
  moreover from None have "?k \<notin> dom (longestInteractionMap s)"
    by (simp add: domIff)
  ultimately have fresh_id: "?k \<notin> ?f ` set (longestInteractionList s)"
    by simp
  from al have fresh_ref: "next_ref s \<notin> set (longestInteractionList s)"
    by auto
  let ?h = "(heap s)(next_ref s :=
      \<lparr>ident = interactionId entry, latency = duration entry, entries = [entry]\<rparr>)"
  let ?m = "(longestInteractionMap s)(?k \<mapsto> next_ref s)"
  have same: "\<forall>r\<in>set (longestInteractionList s). ?h r = heap s r"
    using fresh_ref by auto
  then have ids: "map (\<lambda>r. ident (?h r)) (longestInteractionList s) =
      map ?f (longestInteractionList s)"
    by (intro map_cong) simp_all
  have "dom ?m = set (map (\<lambda>r. ident (?h r)) (longestInteractionList s @ [next_ref s]))"
    using ix unfolding map_append ids by (simp add: indexed_def)
  moreover have "distinct (map (\<lambda>r. ident (?h r)) (longestInteractionList s @ [next_ref s]))"
    using ix fresh_id unfolding map_append ids by (simp add: indexed_def)
  moreover have "\<forall>r\<in>set (longestInteractionList s). ?m (ident (?h r)) = Some r"
  proof
    fix r assume r: "r \<in> set (longestInteractionList s)"
    with same have "ident (?h r) = ?f r" by simp
    moreover from r fresh_id have "?f r \<noteq> ?k" by (metis imageI)
    moreover from r ix have "longestInteractionMap s (?f r) = Some r"
      by (simp add: indexed_def list_all_iff)
    ultimately show "?m (ident (?h r)) = Some r" by simp
  qed
  then have "list_all (\<lambda>r. ?m (ident (?h r)) = Some r) (longestInteractionList s @ [next_ref s])"
    by (simp add: list_all_iff)
  ultimately have "indexed ?h ?m (longestInteractionList s @ [next_ref s])"
    unfolding indexed_def by blast
  then have "lockstep (upsert entry s)"
    using None by (simp add: lockstep_def upsert_def)
  moreover have "allocated (upsert entry s)"
    using al None by (auto simp: allocated_def upsert_def list_all_iff)
  ultimately show ?thesis
    by (simp add: consistent_def)
next
  case (Some r)
  let ?h = "(heap s)(r := (heap s r)
      \<lparr>latency := max (latency (heap s r)) (duration entry),
       entries := entries (heap s r) @ [entry]\<rparr>)"
  have "indexed ?h (longestInteractionMap s) (longestInteractionList s) =
      indexed (heap s) (longestInteractionMap s) (longestInteractionList s)"
    by (rule indexed_ident_cong) simp
  with Some have "lockstep (upsert entry s) = lockstep s"
    by (simp add: lockstep_def upsert_def)
  moreover from Some have "allocated (upsert entry s) = allocated s"
    by (simp add: upsert_def allocated_def)
  ultimately show ?thesis
    using assms by (simp add: consistent_def)
qed

lemma sortAndTrim_consistent: "consistent s \<Longrightarrow> consistent (sortAndTrim s)"
  by (simp add: consistent_def sortAndTrim_lockstep sortAndTrim_allocated)

lemma processEntry_consistent:
  "consistent s \<Longrightarrow> \<exists>s'. processEntry entry s = Inr s' \<and> consistent s'"
  by (simp add: processEntry_Inr sortAndTrim_consistent upsert_consistent)

lemma consistent_cong:
  "longestInteractionList s' = longestInteractionList s \<Longrightarrow> heap s' = heap s \<Longrightarrow>
   longestInteractionMap s' = longestInteractionMap s \<Longrightarrow> next_ref s' = next_ref s \<Longrightarrow>
   consistent s' = consistent s"
  by (simp add: consistent_def lockstep_def allocated_def)

lemma handleEntries_consistent:
  assumes "consistent s"
  shows "\<exists>s'. handleEntries cnt es s = Inr s' \<and> consistent s'"
proof -
  obtain s1 where "forEach handleEntry es s = Inr s1" "consistent s1"
    using forEach_handleEntry_preserves [where P = consistent, OF processEntry_consistent assms]
    by blast
  then show ?thesis
    by (simp add: handleEntries_def consistent_cong [of "reportEstimate cnt s1" s1])
qed

lemma onHidden_consistent:
  assumes "consistent s"
  shows "\<exists>s'. onHidden cnt records s = Inr s' \<and> consistent s'"
proof -
  obtain s1 where s1: "handleEntries cnt records s = Inr s1" "consistent s1"
    using handleEntries_consistent [OF assms] by blast
  have "consistent (report True (zeroIfUncaptured cnt s1)) = consistent s1"
    by (rule consistent_cong) (simp_all add: report_def zeroIfUncaptured_def)
  with s1 show ?thesis by (simp add: onHidden_def)
qed

lemma activated_consistent: "consistent activated"
  by (simp add: consistent_def lockstep_def indexed_def allocated_def activated_def)

section \<open>The admission contract\<close>

lemma upsert_heap_existing:
  "longestInteractionMap s (interactionId entry) = Some r \<Longrightarrow>
   heap (upsert entry s) = (heap s)(r := (heap s r)
      \<lparr>latency := max (latency (heap s r)) (duration entry),
       entries := entries (heap s r) @ [entry]\<rparr>)
   \<and> next_ref (upsert entry s) = next_ref s
   \<and> longestInteractionList (upsert entry s) = longestInteractionList s
   \<and> longestInteractionMap (upsert entry s) = longestInteractionMap s"
  by (simp add: upsert_def)

lemma upsert_heap_new:
  "longestInteractionMap s (interactionId entry) = None \<Longrightarrow>
   heap (upsert entry s) = (heap s)(next_ref s :=
      \<lparr>ident = interactionId entry, latency = duration entry, entries = [entry]\<rparr>)
   \<and> next_ref (upsert entry s) = next_ref s + 1
   \<and> longestInteractionList (upsert entry s) = longestInteractionList s @ [next_ref s]
   \<and> longestInteractionMap (upsert entry s) =
        (longestInteractionMap s)(interactionId entry \<mapsto> next_ref s)"
  by (simp add: upsert_def)

lemma admitted_changes_state: "sortAndTrim (upsert entry s) \<noteq> s"
proof (cases "longestInteractionMap s (interactionId entry)")
  case None
  then have "next_ref (sortAndTrim (upsert entry s)) \<noteq> next_ref s"
    by (simp add: upsert_heap_new)
  then show ?thesis by (metis (full_types))
next
  case (Some r)
  then have "entries (heap (sortAndTrim (upsert entry s)) r) \<noteq> entries (heap s r)"
    by (simp add: upsert_heap_existing)
  then show ?thesis by (metis (full_types))
qed

lemma sortAndTrim_short:
  assumes "length (longestInteractionList s) \<le> MAX_INTERACTIONS_TO_CONSIDER"
  shows "longestInteractionList (sortAndTrim s) = sortByLatency (heap s) (longestInteractionList s)"
    and "longestInteractionMap (sortAndTrim s) = longestInteractionMap s"
  using assms by (simp_all add: sortAndTrim_def Let_def deleteIds_def)

text \<open>
  The contract of \<open>processEntry\<close>, with "already tracked" read as the code tests
  it, presence of the id in the lookup object: the state changes if and only if the
  entry's interaction id is in the lookup object, or the list has fewer than ten members,
  or the entry's duration exceeds the latency of the last listed interaction; otherwise
  the state is returned as it was. When the id is in the lookup object, the record stored
  there is updated in place, no object is created, and with a list of at most ten members
  the list keeps its members and the lookup object is unchanged. In a state in lock-step,
  the id being in the lookup object is the same as an interaction with that id being in
  the list.
\<close>

theorem admission_contract:
  "\<exists>s'. processEntry entry s = Inr s'
     \<and> ((s' \<noteq> s) =
          (longestInteractionMap s (interactionId entry) \<noteq> None
           \<or> length (longestInteractionList s) < 10
           \<or> (longestInteractionList s \<noteq> []
               \<and> latency (heap s (last (longestInteractionList s))) < duration entry)))
     \<and> (s' = s \<longrightarrow> longestInteractionList s' = longestInteractionList s
                      \<and> longestInteractionMap s' = longestInteractionMap s)
     \<and> (\<forall>r. longestInteractionMap s (interactionId entry) = Some r \<longrightarrow>
            heap s' = (heap s)(r := (heap s r)
              \<lparr>latency := max (latency (heap s r)) (duration entry),
               entries := entries (heap s r) @ [entry]\<rparr>)
            \<and> next_ref s' = next_ref s
            \<and> (length (longestInteractionList s) \<le> 10 \<longrightarrow>
                  mset (longestInteractionList s') = mset (longestInteractionList s)
                  \<and> longestInteractionMap s' = longestInteractionMap s))
     \<and> (lockstep s \<longrightarrow>
          (longestInteractionMap s (interactionId entry) \<noteq> None) =
          (\<exists>r\<in>set (longestInteractionList s). ident (heap s r) = interactionId entry))"
proof -
  let ?s' = "if admits entry s then sortAndTrim (upsert entry s) else s"
  have 1: "(?s' \<noteq> s) =
          (longestInteractionMap s (interactionId entry) \<noteq> None
           \<or> length (longestInteractionList s) < 10
           \<or> (longestInteractionList s \<noteq> []
               \<and> latency (heap s (last (longestInteractionList s))) < duration entry))"
    using admitted_changes_state [of entry s]
    by (simp add: admits_def MAX_INTERACTIONS_TO_CONSIDER_def)
  have 2: "heap ?s' = (heap s)(r := (heap s r)
              \<lparr>latency := max (latency (heap s r)) (duration entry),
               entries := entries (heap s r) @ [entry]\<rparr>)
            \<and> next_ref ?s' = next_ref s
            \<and> (length (longestInteractionList s) \<le> 10 \<longrightarrow>
                  mset (longestInteractionList ?s') = mset (longestInteractionList s)
                  \<and> longestInteractionMap ?s' = longestInteractionMap s)"
    if r: "longestInteractionMap s (interactionId entry) = Some r" for r
  proof -
    from r have a: "admits entry s" by (simp add: admits_def)
    note u = upsert_heap_existing [OF r]
    have "mset (longestInteractionList (sortAndTrim (upsert entry s))) =
            mset (longestInteractionList s)
          \<and> longestInteractionMap (sortAndTrim (upsert entry s)) = longestInteractionMap s"
      if "length (longestInteractionList s) \<le> 10"
      using that u sortAndTrim_short [of "upsert entry s"]
      by (simp add: MAX_INTERACTIONS_TO_CONSIDER_def)
    with a u show ?thesis by simp
  qed
  have 3: "(longestInteractionMap s (interactionId entry) \<noteq> None) =
          (\<exists>r\<in>set (longestInteractionList s). ident (heap s r) = interactionId entry)"
    if "lockstep s"
    using indexed_lookup [of "heap s" "longestInteractionMap s" "longestInteractionList s"
        "interactionId entry"] that
    by (auto simp: lockstep_def)
  have "processEntry entry s = Inr ?s'"
    by (rule processEntry_Inr)
  with 1 2 3 show ?thesis
    by (intro exI [of _ ?s']) (simp del: fun_upd_apply)
qed

lemma oneTracked_simps:
  "longestInteractionList oneTracked = [0]"
  "longestInteractionMap oneTracked = [Some 1 \<mapsto> 0]"
  "heap oneTracked 0 = \<lparr>ident = Some 1, latency = 100, entries = [sampleEntry 1 100]\<rparr>"
  "next_ref oneTracked = 1"
  "prevInteractionCount oneTracked = 0"
  "metric oneTracked = \<lparr>mvalue = 100, mentries = Shared 0\<rparr>"
  "calls oneTracked = [BindReporter, Report False 100 [sampleEntry 1 100]]"
  by (simp_all add: oneTracked_def model_defs)

lemma oneTracked_consistent: "consistent oneTracked"
  by (simp add: consistent_def lockstep_def indexed_def allocated_def oneTracked_simps)

lemma tenTracked_last: "latency (heap tenTracked 1) = 20"
  using tenTracked_simps(2) by (simp add: latencies_def tenTracked_simps(1))

theorem admission_contract_witness:
  "(\<exists>s'. processEntry (sampleEntry 1 100) activated = Inr s' \<and> s' \<noteq> activated)
   \<and> processEntry (sampleEntry 12 5) tenTracked = Inr tenTracked
   \<and> (\<exists>s'. processEntry (sampleEntry 12 120) tenTracked = Inr s' \<and> s' \<noteq> tenTracked)
   \<and> (\<exists>s'. processEntry (sampleEntry 1 50) oneTracked = Inr s'
          \<and> longestInteractionMap oneTracked (Some 1) = Some 0
          \<and> heap s' 0 = \<lparr>ident = Some 1, latency = 100,
                            entries = [sampleEntry 1 100, sampleEntry 1 50]\<rparr>
          \<and> next_ref s' = next_ref oneTracked
          \<and> mset (longestInteractionList s') = mset (longestInteractionList oneTracked)
          \<and> longestInteractionMap s' = longestInteractionMap oneTracked
          \<and> lockstep oneTracked
          \<and> (\<exists>r\<in>set (longestInteractionList oneTracked).
                ident (heap oneTracked r) = Some 1))"
proof -
  have 1: "\<exists>s'. processEntry (sampleEntry 1 100) activated = Inr s' \<and> s' \<noteq> activated"
    using admission_contract [of "sampleEntry 1 100" activated]
    by (auto simp: activated_def)
  have 2: "processEntry (sampleEntry 12 5) tenTracked = Inr tenTracked"
    using admission_contract [of "sampleEntry 12 5" tenTracked] tenTracked_last
    by (auto simp: tenTracked_simps sampleEntry_def)
  have 3: "\<exists>s'. processEntry (sampleEntry 12 120) tenTracked = Inr s' \<and> s' \<noteq> tenTracked"
    using admission_contract [of "sampleEntry 12 120" tenTracked] tenTracked_last
    by (auto simp: tenTracked_simps sampleEntry_def)
  have k: "interactionId (sampleEntry 1 50) = Some 1" "duration (sampleEntry 1 50) = 50"
    by (simp_all add: sampleEntry_def)
  have l: "lockstep oneTracked"
    using oneTracked_consistent by (simp add: consistent_def)
  have 4: "\<exists>s'. processEntry (sampleEntry 1 50) oneTracked = Inr s'
          \<and> longestInteractionMap oneTracked (Some 1) = Some 0
          \<and> heap s' 0 = \<lparr>ident = Some 1, latency = 100,
                            entries = [sampleEntry 1 100, sampleEntry 1 50]\<rparr>
          \<and> next_ref s' = next_ref oneTracked
          \<and> mset (longestInteractionList s') = mset (longestInteractionList oneTracked)
          \<and> longestInteractionMap s' = longestInteractionMap oneTracked
          \<and> lockstep oneTracked
          \<and> (\<exists>r\<in>set (longestInteractionList oneTracked).
                ident (heap oneTracked r) = Some 1)"
    using admission_contract [of "sampleEntry 1 50" oneTracked] l
    unfolding k by (auto simp: oneTracked_simps)
  from 1 2 3 4 show ?thesis by blast
qed

section \<open>The first-input deduplication\<close>








section \<open>Merging fragments into a record\<close>

lemma processEntry_record:
  assumes "r < next_ref s"
  shows "\<exists>s1. processEntry entry s = Inr s1
     \<and> heap s1 r =
         (if longestInteractionMap s (interactionId entry) = Some r
          then (heap s r)\<lparr>latency := max (latency (heap s r)) (duration entry),
                           entries := entries (heap s r) @ [entry]\<rparr>
          else heap s r)
     \<and> next_ref s \<le> next_ref s1"
proof (cases "longestInteractionMap s (interactionId entry)")
  case None
  with assms show ?thesis
    by (simp add: processEntry_Inr upsert_heap_new)
next
  case (Some r')
  then have "admits entry s" by (simp add: admits_def)
  with Some show ?thesis
    by (simp add: processEntry_Inr upsert_heap_existing)
qed

lemma fold_max_mono: "a \<le> fold max ds (a::real)"
proof (induction ds arbitrary: a)
  case Nil
  show ?case by simp
next
  case (Cons d ds)
  have "a \<le> max d a" by simp
  also have "\<dots> \<le> fold max ds (max d a)" by (rule Cons.IH)
  finally show ?case by simp
qed

lemma forEach_processEntry_record:
  assumes "r < next_ref s"
  shows "\<exists>s'. forEach processEntry es s = Inr s'
     \<and> entries (heap s' r) = entries (heap s r) @ mergedInto r es s
     \<and> latency (heap s' r) = fold max (map duration (mergedInto r es s)) (latency (heap s r))
     \<and> ident (heap s' r) = ident (heap s r)
     \<and> next_ref s \<le> next_ref s'"
  using assms
proof (induction es arbitrary: s)
  case Nil
  then show ?case by simp
next
  case (Cons entry es)
  from processEntry_record [OF Cons.prems, of entry]
  obtain s1 where s1: "processEntry entry s = Inr s1"
    and h: "heap s1 r =
         (if longestInteractionMap s (interactionId entry) = Some r
          then (heap s r)\<lparr>latency := max (latency (heap s r)) (duration entry),
                           entries := entries (heap s r) @ [entry]\<rparr>
          else heap s r)"
    and n: "next_ref s \<le> next_ref s1"
    by blast
  from n Cons.prems have "r < next_ref s1" by simp
  from Cons.IH [OF this]
  obtain s' where s': "forEach processEntry es s1 = Inr s'"
    and e: "entries (heap s' r) = entries (heap s1 r) @ mergedInto r es s1"
    and l: "latency (heap s' r) = fold max (map duration (mergedInto r es s1)) (latency (heap s1 r))"
    and i: "ident (heap s' r) = ident (heap s1 r)"
    and n': "next_ref s1 \<le> next_ref s'"
    by blast
  show ?case
  proof (cases "longestInteractionMap s (interactionId entry) = Some r")
    case True
    with s1 s' e l i h n n' show ?thesis
      by (simp add: max.commute)
  next
    case False
    with s1 s' e l i h n n' show ?thesis
      by simp
  qed
qed

lemma mergedOk_new:
  "mergedOk \<lparr>ident = interactionId entry, latency = duration entry, entries = [entry]\<rparr>"
  by (simp add: mergedOk_def)

lemma mergedOk_append:
  assumes "mergedOk i" and "interactionId entry = ident i"
  shows "mergedOk (i\<lparr>latency := max (latency i) (duration entry),
                     entries := entries i @ [entry]\<rparr>)"
proof -
  from assms(1) have ne: "set (map duration (entries i)) \<noteq> {}"
    and lat: "latency i = Max (set (map duration (entries i)))"
    by (simp_all add: mergedOk_def)
  have "Max (set (map duration (entries i @ [entry]))) =
      Max (insert (duration entry) (set (map duration (entries i))))"
    by simp
  also have "\<dots> = max (duration entry) (Max (set (map duration (entries i))))"
    using ne by (intro Max_insert) simp_all
  finally have "Max (set (map duration (entries i @ [entry]))) =
      max (latency i) (duration entry)"
    using lat by (simp add: max.commute)
  with assms show ?thesis
    by (simp add: mergedOk_def)
qed

lemma keysMatch_lookup:
  "keysMatch s \<Longrightarrow> longestInteractionMap s k = Some r \<Longrightarrow>
   ident (heap s r) = k \<and> r < next_ref s"
  by (auto simp: keysMatch_def split: option.splits dest: spec [of _ k])

lemma upsert_merged:
  assumes m: "allMergedOk s" and k: "keysMatch s"
  shows "allMergedOk (upsert entry s) \<and> keysMatch (upsert entry s)"
proof (cases "longestInteractionMap s (interactionId entry)")
  case None
  note u = upsert_heap_new [OF None]
  have "mergedOk (heap (upsert entry s) r)" if "r < Suc (next_ref s)" for r
  proof (cases "r = next_ref s")
    case True
    with u show ?thesis by (simp add: mergedOk_new)
  next
    case False
    with that have "r < next_ref s" by simp
    with m have "mergedOk (heap s r)" by (simp add: allMergedOk_def list_all_iff)
    with False u show ?thesis by simp
  qed
  then have "\<forall>r\<in>set [0..<next_ref (upsert entry s)]. mergedOk (heap (upsert entry s) r)"
    using u by (simp del: fun_upd_apply)
  then have "allMergedOk (upsert entry s)"
    by (simp only: allMergedOk_def list_all_iff)
  moreover have "keysMatch (upsert entry s)"
    unfolding keysMatch_def
  proof
    fix k'
    show "case longestInteractionMap (upsert entry s) k' of None \<Rightarrow> True
          | Some r \<Rightarrow> ident (heap (upsert entry s) r) = k' \<and> r < next_ref (upsert entry s)"
    proof (cases "k' = interactionId entry")
      case True
      with u show ?thesis by simp
    next
      case False
      show ?thesis
      proof (cases "longestInteractionMap s k'")
        case None
        with False u show ?thesis by simp
      next
        case (Some r)
        from keysMatch_lookup [OF k Some] False Some u show ?thesis by simp
      qed
    qed
  qed
  ultimately show ?thesis by simp
next
  case (Some r)
  note u = upsert_heap_existing [OF Some]
  from keysMatch_lookup [OF k Some] have id: "ident (heap s r) = interactionId entry"
    and r: "r < next_ref s" by simp_all
  from m r have "mergedOk (heap s r)" by (simp add: allMergedOk_def list_all_iff)
  with id have new: "mergedOk ((heap s r)\<lparr>latency := max (latency (heap s r)) (duration entry),
                     entries := entries (heap s r) @ [entry]\<rparr>)"
    by (intro mergedOk_append) simp_all
  have "mergedOk (heap (upsert entry s) r')" if "r' < next_ref s" for r'
  proof (cases "r' = r")
    case True
    with new u show ?thesis by simp
  next
    case False
    from that m have "mergedOk (heap s r')" by (simp add: allMergedOk_def list_all_iff)
    with False u show ?thesis by simp
  qed
  then have "\<forall>r\<in>set [0..<next_ref (upsert entry s)]. mergedOk (heap (upsert entry s) r)"
    using u by (simp del: fun_upd_apply)
  then have "allMergedOk (upsert entry s)"
    by (simp only: allMergedOk_def list_all_iff)
  moreover have "keysMatch (upsert entry s)"
    unfolding keysMatch_def
  proof
    fix k'
    show "case longestInteractionMap (upsert entry s) k' of None \<Rightarrow> True
          | Some r \<Rightarrow> ident (heap (upsert entry s) r) = k' \<and> r < next_ref (upsert entry s)"
    proof (cases "longestInteractionMap s k'")
      case None
      with u show ?thesis by simp
    next
      case (Some r')
      from keysMatch_lookup [OF k Some] Some u show ?thesis by auto
    qed
  qed
  ultimately show ?thesis by simp
qed

lemma sortAndTrim_merged:
  assumes "allMergedOk s" and k: "keysMatch s"
  shows "allMergedOk (sortAndTrim s) \<and> keysMatch (sortAndTrim s)"
proof -
  have "allMergedOk (sortAndTrim s)"
    using assms(1) by (simp add: allMergedOk_def)
  moreover have "keysMatch (sortAndTrim s)"
    unfolding keysMatch_def
  proof
    fix k'
    let ?m = "longestInteractionMap (sortAndTrim s)"
    have "?m k' = None \<or> ?m k' = longestInteractionMap s k'"
      by (simp add: sortAndTrim_def Let_def deleteIds_apply)
    then show "case ?m k' of None \<Rightarrow> True
          | Some r \<Rightarrow> ident (heap (sortAndTrim s) r) = k' \<and> r < next_ref (sortAndTrim s)"
    proof
      assume "?m k' = None"
      then show ?thesis by simp
    next
      assume eq: "?m k' = longestInteractionMap s k'"
      show ?thesis
      proof (cases "longestInteractionMap s k'")
        case None
        with eq show ?thesis by simp
      next
        case (Some r)
        from keysMatch_lookup [OF k Some] Some eq show ?thesis by simp
      qed
    qed
  qed
  ultimately show ?thesis by simp
qed

lemma processEntry_merged:
  assumes "allMergedOk s \<and> keysMatch s"
  shows "\<exists>s'. processEntry entry s = Inr s' \<and> (allMergedOk s' \<and> keysMatch s')"
  using assms upsert_merged [of s entry] sortAndTrim_merged [of "upsert entry s"]
  by (simp add: processEntry_Inr)

lemma merged_cong:
  "heap s' = heap s \<Longrightarrow> longestInteractionMap s' = longestInteractionMap s \<Longrightarrow>
   next_ref s' = next_ref s \<Longrightarrow>
   (allMergedOk s' \<and> keysMatch s') = (allMergedOk s \<and> keysMatch s)"
  by (simp add: allMergedOk_def keysMatch_def cong: option.case_cong)

lemma notify_merged:
  assumes "allMergedOk s \<and> keysMatch s"
  shows "\<exists>s'. notify n s = Inr s' \<and> (allMergedOk s' \<and> keysMatch s')"
proof -
  let ?P = "\<lambda>t::Session. allMergedOk t \<and> keysMatch t"
  have batch: "\<exists>s'. handleEntries cnt es s = Inr s' \<and> ?P s'" for cnt es
  proof -
    obtain s1 where "forEach handleEntry es s = Inr s1" "?P s1"
      using forEach_handleEntry_preserves [where P = ?P, OF processEntry_merged assms]
      by blast
    then show ?thesis
      using merged_cong [of "reportEstimate cnt s1" s1] by (simp add: handleEntries_def)
  qed
  show ?thesis
  proof (cases n)
    case (Entries cnt es)
    with batch show ?thesis by simp
  next
    case (Hidden cnt records)
    obtain s1 where s1: "handleEntries cnt records s = Inr s1" "?P s1"
      using batch by blast
    have "?P (report True (zeroIfUncaptured cnt s1)) = ?P s1"
      by (rule merged_cong) (simp_all add: report_def zeroIfUncaptured_def)
    with Hidden s1 show ?thesis by (simp add: onHidden_def)
  next
    case (BFCacheRestore cnt)
    have "?P (onBFCacheRestore cnt s) = ?P s"
      by (rule merged_cong) (simp_all add: onBFCacheRestore_def)
    with BFCacheRestore assms show ?thesis by simp
  qed
qed

lemma activated_merged: "allMergedOk activated \<and> keysMatch activated"
  by (simp add: allMergedOk_def keysMatch_def activated_def)

text \<open>
  C6. For an allocated record and any sequence of entries processed, the record's
  entries afterwards are its earlier entries followed by the fragments merged into it,
  in their order of arrival; its latency is the maximum of its earlier latency and the
  durations of those fragments, so it never decreases; and its id does not change. A
  record is created with the one fragment that caused it and that fragment's duration as
  latency. Hence in every state the module reaches, every record's latency is the
  largest duration among its fragments, all of which carry the record's id.
\<close>

theorem merged_latency_and_entries:
  "(r < next_ref s \<longrightarrow>
      (\<exists>s'. forEach processEntry es s = Inr s'
         \<and> entries (heap s' r) = entries (heap s r) @ mergedInto r es s
         \<and> latency (heap s' r) =
             Max (set (latency (heap s r) # map duration (mergedInto r es s)))
         \<and> latency (heap s r) \<le> latency (heap s' r)
         \<and> ident (heap s' r) = ident (heap s r)))
   \<and> (longestInteractionMap s (interactionId entry) = None \<and> admits entry s \<longrightarrow>
        (\<exists>s'. processEntry entry s = Inr s'
           \<and> next_ref s' = next_ref s + 1
           \<and> longestInteractionMap (upsert entry s) (interactionId entry) = Some (next_ref s)
           \<and> heap s' (next_ref s) =
               \<lparr>ident = interactionId entry, latency = duration entry, entries = [entry]\<rparr>))
   \<and> (\<exists>s'. run ns activated = Inr s' \<and> allMergedOk s')"
proof (intro conjI impI)
  assume "r < next_ref s"
  from forEach_processEntry_record [OF this, of es]
  obtain s' where "forEach processEntry es s = Inr s'"
    "entries (heap s' r) = entries (heap s r) @ mergedInto r es s"
    "latency (heap s' r) = fold max (map duration (mergedInto r es s)) (latency (heap s r))"
    "ident (heap s' r) = ident (heap s r)"
    by blast
  then show "\<exists>s'. forEach processEntry es s = Inr s'
         \<and> entries (heap s' r) = entries (heap s r) @ mergedInto r es s
         \<and> latency (heap s' r) =
             Max (set (latency (heap s r) # map duration (mergedInto r es s)))
         \<and> latency (heap s r) \<le> latency (heap s' r)
         \<and> ident (heap s' r) = ident (heap s r)"
    using fold_max_mono [of "latency (heap s r)" "map duration (mergedInto r es s)"]
    unfolding Max.set_eq_fold by simp
next
  assume "longestInteractionMap s (interactionId entry) = None \<and> admits entry s"
  then show "\<exists>s'. processEntry entry s = Inr s'
           \<and> next_ref s' = next_ref s + 1
           \<and> longestInteractionMap (upsert entry s) (interactionId entry) = Some (next_ref s)
           \<and> heap s' (next_ref s) =
               \<lparr>ident = interactionId entry, latency = duration entry, entries = [entry]\<rparr>"
    by (simp add: processEntry_Inr upsert_heap_new)
next
  have "\<exists>s'. run ns activated = Inr s' \<and> (allMergedOk s' \<and> keysMatch s')"
    unfolding run_def
    by (rule forEach_preserves [where P = "\<lambda>t. allMergedOk t \<and> keysMatch t",
          OF notify_merged activated_merged])
  then show "\<exists>s'. run ns activated = Inr s' \<and> allMergedOk s'"
    by blast
qed

lemma mergedInto_sample:
  "mergedInto 0 [sampleEntry 2 100, sampleEntry 1 350, sampleEntry 1 50] oneTracked =
     [sampleEntry 1 350, sampleEntry 1 50]"
  by (simp add: oneTracked_simps processEntry_def admission_def upsert_def sortAndTrim_def
      sortByLatency_def deleteIds_def MAX_INTERACTIONS_TO_CONSIDER_def
      minLongestInteraction_def sampleEntry_def)

theorem merged_latency_and_entries_witness:
  "0 < next_ref oneTracked
   \<and> (\<exists>s'. forEach processEntry [sampleEntry 2 100, sampleEntry 1 350, sampleEntry 1 50]
              oneTracked = Inr s'
          \<and> entries (heap s' 0) = [sampleEntry 1 100, sampleEntry 1 350, sampleEntry 1 50]
          \<and> latency (heap s' 0) = 350
          \<and> ident (heap s' 0) = Some 1)
   \<and> longestInteractionMap activated (interactionId (sampleEntry 1 100)) = None
   \<and> admits (sampleEntry 1 100) activated
   \<and> (\<exists>s'. processEntry (sampleEntry 1 100) activated = Inr s'
          \<and> next_ref s' = 1
          \<and> heap s' 0 = \<lparr>ident = Some 1, latency = 100, entries = [sampleEntry 1 100]\<rparr>)
   \<and> (\<exists>s'. run [Entries 1 [sampleEntry 1 100]] activated = Inr s' \<and> allMergedOk s')"
proof -
  have a: "0 < next_ref oneTracked"
    by (simp add: oneTracked_simps)
  have d: "map duration [sampleEntry 1 350, sampleEntry 1 50] = [350, 50]"
    "interactionId (sampleEntry 1 100) = Some 1" "duration (sampleEntry 1 100) = 100"
    by (simp_all add: sampleEntry_def)
  have 1: "\<exists>s'. forEach processEntry [sampleEntry 2 100, sampleEntry 1 350, sampleEntry 1 50]
              oneTracked = Inr s'
          \<and> entries (heap s' 0) = [sampleEntry 1 100, sampleEntry 1 350, sampleEntry 1 50]
          \<and> latency (heap s' 0) = 350
          \<and> ident (heap s' 0) = Some 1"
    using merged_latency_and_entries
      [of 0 oneTracked "[sampleEntry 2 100, sampleEntry 1 350, sampleEntry 1 50]"] a
    unfolding mergedInto_sample d by (auto simp: oneTracked_simps)
  have b: "longestInteractionMap activated (interactionId (sampleEntry 1 100)) = None"
    "admits (sampleEntry 1 100) activated" "next_ref activated = 0"
    by (simp_all add: activated_def admits_def MAX_INTERACTIONS_TO_CONSIDER_def)
  have 2: "\<exists>s'. processEntry (sampleEntry 1 100) activated = Inr s'
          \<and> next_ref s' = 1
          \<and> heap s' 0 = \<lparr>ident = Some 1, latency = 100, entries = [sampleEntry 1 100]\<rparr>"
    using merged_latency_and_entries [where s = activated and entry = "sampleEntry 1 100"] b
    unfolding d by auto
  have 3: "\<exists>s'. run [Entries 1 [sampleEntry 1 100]] activated = Inr s' \<and> allMergedOk s'"
    using merged_latency_and_entries [where ns = "[Entries 1 [sampleEntry 1 100]]"]
    by blast
  from a 1 b 2 3 show ?thesis by blast
qed

section \<open>The restore from the back/forward cache\<close>

text \<open>
  As long as no restore happens, the list and the lookup object stay in lock-step:
  every insertion and every eviction in \<open>processEntry\<close> is mirrored.
\<close>

lemma lockstep_without_restore:
  assumes "noRestore ns"
  shows "\<exists>s'. run ns activated = Inr s' \<and> lockstep s'"
proof -
  have "consistent s \<Longrightarrow> \<exists>s'. forEach notify ns s = Inr s' \<and> consistent s'" for s
    using assms
  proof (induction ns arbitrary: s)
    case Nil
    then show ?case by simp
  next
    case (Cons n ns)
    from Cons.prems(2) have rest: "noRestore ns"
      by (simp add: noRestore_def)
    have "\<exists>s1. notify n s = Inr s1 \<and> consistent s1"
    proof (cases n)
      case (Entries cnt es)
      with handleEntries_consistent [OF Cons.prems(1)] show ?thesis by simp
    next
      case (Hidden cnt records)
      with onHidden_consistent [OF Cons.prems(1)] show ?thesis by simp
    next
      case (BFCacheRestore cnt)
      with Cons.prems(2) show ?thesis by (simp add: noRestore_def)
    qed
    then obtain s1 where "notify n s = Inr s1" "consistent s1" by blast
    with Cons.IH [OF this(2) rest] show ?case by simp
  qed
  from this [OF activated_consistent] show ?thesis
    by (auto simp: run_def consistent_def)
qed

lemma onBFCacheRestore_resets:
  "longestInteractionList (onBFCacheRestore cnt s) = []
   \<and> prevInteractionCount (onBFCacheRestore cnt s) = cnt
   \<and> getInteractionCountForNavigation cnt (onBFCacheRestore cnt s) = 0
   \<and> metric (onBFCacheRestore cnt s) = initMetric
   \<and> calls (onBFCacheRestore cnt s) = calls s @ [BindReporter]
   \<and> longestInteractionMap (onBFCacheRestore cnt s) = longestInteractionMap s
   \<and> heap (onBFCacheRestore cnt s) = heap s"
  by (simp add: onBFCacheRestore_def getInteractionCountForNavigation_def)

text \<open>
  C1. The lock-step is lost at a restore: the callback empties the list and leaves the
  lookup object as it is. After one interaction (id 1) and a restore, the list is empty
  while the lookup object still maps id 1 to the old record.
\<close>

theorem restore_keeps_stale_index:
  "\<exists>s'. run [Entries 1 [sampleEntry 1 100], BFCacheRestore 1] activated = Inr s'
     \<and> longestInteractionList s' = []
     \<and> longestInteractionMap s' (Some 1) = Some 0
     \<and> \<not> lockstep s'"
proof -
  have "run [Entries 1 [sampleEntry 1 100], BFCacheRestore 1] activated =
      Inr (onBFCacheRestore 1 oneTracked)"
    by (simp add: run_def oneTracked_def model_defs)
  moreover have "longestInteractionList (onBFCacheRestore 1 oneTracked) = []"
    "longestInteractionMap (onBFCacheRestore 1 oneTracked) (Some 1) = Some 0"
    by (simp_all add: onBFCacheRestore_resets oneTracked_simps)
  moreover from this have "\<not> lockstep (onBFCacheRestore 1 oneTracked)"
    by (auto simp: lockstep_def indexed_def)
  ultimately show ?thesis by simp
qed

text \<open>
  C2. After a restore the list is empty, the baseline is the host's count and the
  metric is new, but the lookup object keeps its entries, and a later estimate depends
  on what was observed before the restore: the same batch (id 1, duration 200) and the
  same counts after the restore give no estimate when id 1 had been tracked before the
  restore, and the estimate 200 when nothing had been.
\<close>

theorem restore_depends_on_history:
  "(\<exists>s'. run [Entries 1 [sampleEntry 1 100], BFCacheRestore 1] activated = Inr s'
      \<and> longestInteractionList s' = []
      \<and> prevInteractionCount s' = 1
      \<and> metric s' = initMetric
      \<and> longestInteractionMap s' \<noteq> Map.empty)
   \<and> (\<exists>s'. run [Entries 1 [sampleEntry 1 100], BFCacheRestore 1,
                  Entries 2 [sampleEntry 1 200]] activated = Inr s'
      \<and> longestInteractionList s' = []
      \<and> estimateP98LongestInteraction 2 s' = None
      \<and> metric s' = initMetric
      \<and> calls s' = [BindReporter, Report False 100 [sampleEntry 1 100], BindReporter])
   \<and> (\<exists>s'. run [BFCacheRestore 1, Entries 2 [sampleEntry 1 200]] activated = Inr s'
      \<and> longestInteractionList s' = [0]
      \<and> estimateP98LongestInteraction 2 s' = Some 0
      \<and> mvalue (metric s') = 200
      \<and> calls s' = [BindReporter, BindReporter, Report False 200 [sampleEntry 1 200]])"
proof -
  have "\<exists>s'. run [Entries 1 [sampleEntry 1 100], BFCacheRestore 1] activated = Inr s'
      \<and> longestInteractionList s' = []
      \<and> prevInteractionCount s' = 1
      \<and> metric s' = initMetric
      \<and> longestInteractionMap s' (Some 1) = Some 0"
    by (simp add: model_defs)
  then have 1: "\<exists>s'. run [Entries 1 [sampleEntry 1 100], BFCacheRestore 1] activated = Inr s'
      \<and> longestInteractionList s' = []
      \<and> prevInteractionCount s' = 1
      \<and> metric s' = initMetric
      \<and> longestInteractionMap s' \<noteq> Map.empty"
    by fastforce
  have 2: "\<exists>s'. run [Entries 1 [sampleEntry 1 100], BFCacheRestore 1,
                  Entries 2 [sampleEntry 1 200]] activated = Inr s'
      \<and> longestInteractionList s' = []
      \<and> estimateP98LongestInteraction 2 s' = None
      \<and> metric s' = initMetric
      \<and> calls s' = [BindReporter, Report False 100 [sampleEntry 1 100], BindReporter]"
    by (simp add: model_defs)
  have 3: "\<exists>s'. run [BFCacheRestore 1, Entries 2 [sampleEntry 1 200]] activated = Inr s'
      \<and> longestInteractionList s' = [0]
      \<and> estimateP98LongestInteraction 2 s' = Some 0
      \<and> mvalue (metric s') = 200
      \<and> calls s' = [BindReporter, BindReporter, Report False 200 [sampleEntry 1 200]]"
    by (simp add: model_defs)
  from 1 2 3 show ?thesis by blast
qed



text \<open>
  C5. After a restore the lookup object holds ids that are no longer tracked, and the
  admission test still accepts them. After one interaction (id 1, latency 500), a
  restore, and ten interactions (ids 21 to 30, latency 100), the list is full, no listed
  interaction has id 1, and the duration 50 does not exceed the latency 100 of the last
  listed interaction; still the entry with id 1 and duration 50 is admitted: it is
  appended to the old record, which is in no list, and the state changes.
\<close>

theorem stale_id_admitted:
  "\<exists>s s'. run [Entries 1 [sampleEntry 1 500], BFCacheRestore 1, Entries 11 tenLaterEntries]
             activated = Inr s
     \<and> longestInteractionList s = [1, 2, 3, 4, 5, 6, 7, 8, 9, 10]
     \<and> map (\<lambda>r. ident (heap s r)) (longestInteractionList s) =
          [Some 21, Some 22, Some 23, Some 24, Some 25, Some 26, Some 27, Some 28, Some 29,
           Some 30]
     \<and> latencies s = [100, 100, 100, 100, 100, 100, 100, 100, 100, 100]
     \<and> longestInteractionMap s (Some 1) = Some 0
     \<and> duration (sampleEntry 1 50) \<le> latency (heap s (last (longestInteractionList s)))
     \<and> entries (heap s 0) = [sampleEntry 1 500]
     \<and> processEntry (sampleEntry 1 50) s = Inr s'
     \<and> entries (heap s' 0) = [sampleEntry 1 500, sampleEntry 1 50]
     \<and> longestInteractionList s' = longestInteractionList s
     \<and> s' \<noteq> s"
proof -
  have "\<exists>s s'. run [Entries 1 [sampleEntry 1 500], BFCacheRestore 1, Entries 11 tenLaterEntries]
             activated = Inr s
     \<and> longestInteractionList s = [1, 2, 3, 4, 5, 6, 7, 8, 9, 10]
     \<and> map (\<lambda>r. ident (heap s r)) (longestInteractionList s) =
          [Some 21, Some 22, Some 23, Some 24, Some 25, Some 26, Some 27, Some 28, Some 29,
           Some 30]
     \<and> latencies s = [100, 100, 100, 100, 100, 100, 100, 100, 100, 100]
     \<and> longestInteractionMap s (Some 1) = Some 0
     \<and> duration (sampleEntry 1 50) \<le> latency (heap s (last (longestInteractionList s)))
     \<and> entries (heap s 0) = [sampleEntry 1 500]
     \<and> processEntry (sampleEntry 1 50) s = Inr s'
     \<and> entries (heap s' 0) = [sampleEntry 1 500, sampleEntry 1 50]
     \<and> longestInteractionList s' = longestInteractionList s"
    by (simp add: model_defs tenLaterEntries_def latencies_def)
  then obtain s s' where c: "run [Entries 1 [sampleEntry 1 500], BFCacheRestore 1, Entries 11 tenLaterEntries]
             activated = Inr s
     \<and> longestInteractionList s = [1, 2, 3, 4, 5, 6, 7, 8, 9, 10]
     \<and> map (\<lambda>r. ident (heap s r)) (longestInteractionList s) =
          [Some 21, Some 22, Some 23, Some 24, Some 25, Some 26, Some 27, Some 28, Some 29,
           Some 30]
     \<and> latencies s = [100, 100, 100, 100, 100, 100, 100, 100, 100, 100]
     \<and> longestInteractionMap s (Some 1) = Some 0
     \<and> duration (sampleEntry 1 50) \<le> latency (heap s (last (longestInteractionList s)))
     \<and> entries (heap s 0) = [sampleEntry 1 500]
     \<and> processEntry (sampleEntry 1 50) s = Inr s'
     \<and> entries (heap s' 0) = [sampleEntry 1 500, sampleEntry 1 50]
     \<and> longestInteractionList s' = longestInteractionList s"
    by (elim exE) (rule that)
  then have "entries (heap s' 0) \<noteq> entries (heap s 0)"
    by simp
  then have ne: "s' \<noteq> s"
    by (metis (full_types))
  from c ne show ?thesis
    apply -
    apply (rule exI [of _ s], rule exI [of _ s'])
    apply (elim conjE)
    apply (intro conjI)
    apply assumption+
    done
qed

end
